theory Spec2Isabelle
  imports Main "HOL-Library.Sublist"
begin

section \<open>The environment of \<^verbatim>\<open>setup_env.py\<close>\<close>

text \<open>
  The script acts on the file system, on the logger and on the process. The model keeps
  all of that in one record that every operation takes and returns: the tree of the file
  system, the paths on which the operating system refuses a write, a clock that stamps
  modification times, the working directory of the process and the lines logged so far.
  The tree holds directories and regular files; links, FIFOs, sockets and devices are not
  modelled.

  A path is the list of its components below \<^verbatim>\<open>/\<close>; the empty list is the
  root directory, which always exists.

  The calls of \<^verbatim>\<open>os\<close> and \<^verbatim>\<open>pathlib\<close> are not code of the script. They
  are written after CPython's \<^verbatim>\<open>pathlib\<close> and the POSIX calls below it, over a
  tree without links. One predicate, \<open>denied\<close>, stands for every reason why the
  system refuses to create or to modify an entry. A refusal is met by the call that asks
  for the change, with one exception: data written to a file go through a buffer, and the
  system may accept the \<^verbatim>\<open>open\<close> and refuse the data when they are flushed (no space
  left, an I/O error). \<open>late\<close> tells for which paths a refusal is of that kind.
  A call looks at the entry itself before it looks at the ancestors; on a tree where every
  entry stands in a directory the order cannot be observed.
\<close>

type_synonym path = "string list"

datatype node = Dir | File (content: string) (mtime: nat)

text \<open>
  The subclasses of \<^verbatim>\<open>OSError\<close> that the calls raise; \<open>NoSpaceLeft\<close> is a plain
  \<^verbatim>\<open>OSError\<close> (\<^verbatim>\<open>ENOSPC\<close>, \<^verbatim>\<open>EDQUOT\<close>, \<^verbatim>\<open>EIO\<close>).
\<close>

datatype os_error =
  FileNotFoundError | FileExistsError | NotADirectoryError | IsADirectoryError | PermissionError
  | NoSpaceLeft

text \<open>
  Python exceptions: an \<^verbatim>\<open>OSError\<close> with the path it was raised for and the
  \<^verbatim>\<open>RuntimeError\<close> of a failed CUDA call (subclasses of \<^verbatim>\<open>Exception\<close>), and
  \<^verbatim>\<open>SystemExit\<close> with its status (not a subclass of \<^verbatim>\<open>Exception\<close>).
\<close>

datatype exn = OSError os_error path | RuntimeError | SystemExit nat

datatype 'a result = Return 'a | Raise exn

datatype level = INFO | WARNING | ERROR

text \<open>One constructor for each format string that the script logs, with its arguments.\<close>

datatype message =
    Starting
  | Created_Verified path
  | Failed_to_create path exn
  | CUDA_Detected string nat
  | MPS_Detected
  | No_Hardware_Acceleration
  | Setup_Complete string
  | Project_Root path

record world =
  nodes :: "path \<Rightarrow> node option"
  denied :: "path \<Rightarrow> bool"
  late :: "path \<Rightarrow> bool"
  clock :: nat
  cwd :: path
  log :: "(level \<times> message) list"

definition lookup :: "world \<Rightarrow> path \<Rightarrow> node option" where
  "lookup w p = (if p = [] then Some Dir else nodes w p)"

text \<open>\<^verbatim>\<open>Path.is_dir()\<close>: the path exists and is a directory.\<close>

definition is_dir :: "world \<Rightarrow> path \<Rightarrow> bool" where
  "is_dir w p = (lookup w p = Some Dir)"

definition logger :: "level \<Rightarrow> message \<Rightarrow> world \<Rightarrow> world" where
  "logger l m w = w\<lparr>log := log w @ [(l, m)]\<rparr>"

subsection \<open>Paths\<close>

text \<open>
  \<^verbatim>\<open>pathlib\<close> splits a string at \<^verbatim>\<open>/\<close> and drops empty components and
  \<^verbatim>\<open>.\<close>; \<^verbatim>\<open>a / s\<close> appends the components of a relative \<^verbatim>\<open>s\<close> and
  is \<^verbatim>\<open>s\<close> alone when \<^verbatim>\<open>s\<close> is absolute.
\<close>

fun splitp :: "string \<Rightarrow> string list" where
  "splitp [] = [[]]"
| "splitp (c # cs) =
     (if c = CHR ''/'' then [] # splitp cs
      else (case splitp cs of [] \<Rightarrow> [[c]] | x # xs \<Rightarrow> (c # x) # xs))"

definition parts :: "string \<Rightarrow> path" where
  "parts s = filter (\<lambda>x. x \<noteq> [] \<and> x \<noteq> ''.'') (splitp s)"

definition joinpath :: "path \<Rightarrow> string \<Rightarrow> path" where
  "joinpath a s = (if s \<noteq> [] \<and> hd s = CHR ''/'' then parts s else a @ parts s)"

subsection \<open>Operating system calls\<close>

text \<open>
  The entry at the longest prefix of a path that exists. For a path that is not there, the
  system answers \<^verbatim>\<open>ENOTDIR\<close> when this entry above it is a file and
  \<^verbatim>\<open>ENOENT\<close> when it is a directory.
\<close>

fun nearest_rev :: "world \<Rightarrow> path \<Rightarrow> node" where
  "nearest_rev w [] = Dir"
| "nearest_rev w (x # xs) =
     (case lookup w (rev (x # xs)) of Some n \<Rightarrow> n | None \<Rightarrow> nearest_rev w xs)"

definition nearest :: "world \<Rightarrow> path \<Rightarrow> node" where
  "nearest w p = nearest_rev w (rev p)"

definition missing_parent :: "world \<Rightarrow> path \<Rightarrow> os_error" where
  "missing_parent w p =
     (case nearest w (butlast p) of
        Dir \<Rightarrow> FileNotFoundError
      | File c t \<Rightarrow> NotADirectoryError)"

text \<open>
  \<^verbatim>\<open>os.mkdir(p)\<close> creates one directory: it fails when an entry of that name
  exists, when the parent is missing or is a file, and when the write is refused. A call
  that fails changes nothing.
\<close>

definition os_mkdir :: "path \<Rightarrow> world \<Rightarrow> unit result \<times> world" where
  "os_mkdir p w =
     (case lookup w p of
        Some n \<Rightarrow> (Raise (OSError FileExistsError p), w)
      | None \<Rightarrow>
          (case lookup w (butlast p) of
             None \<Rightarrow> (Raise (OSError (missing_parent w p) p), w)
           | Some (File c t) \<Rightarrow> (Raise (OSError NotADirectoryError p), w)
           | Some Dir \<Rightarrow>
               if denied w p then (Raise (OSError PermissionError p), w)
               else (Return (), w\<lparr>nodes := (nodes w)(p \<mapsto> Dir)\<rparr>)))"

text \<open>
  \<^verbatim>\<open>os.utime(p, None)\<close> sets the modification time of an existing entry to now. The
  model keeps modification times of regular files only.
\<close>

definition os_utime :: "path \<Rightarrow> world \<Rightarrow> unit result \<times> world" where
  "os_utime p w =
     (case lookup w p of
        None \<Rightarrow> (Raise (OSError (missing_parent w p) p), w)
      | Some n \<Rightarrow>
          if denied w p then (Raise (OSError PermissionError p), w)
          else (Return (),
                w\<lparr>nodes := (case n of Dir \<Rightarrow> nodes w | File c t \<Rightarrow> (nodes w)(p \<mapsto> File c (clock w))),
                  clock := Suc (clock w)\<rparr>))"

text \<open>
  \<^verbatim>\<open>os.open(p, O_CREAT | O_WRONLY)\<close>, with \<^verbatim>\<open>O_TRUNC\<close> when \<open>trunc\<close>: an existing
  file is opened (and emptied only under \<^verbatim>\<open>O_TRUNC\<close>), a missing one is created empty.
  The open for a write of data (\<open>trunc\<close>) passes where the refusal is late.
\<close>

definition refuses_open :: "bool \<Rightarrow> world \<Rightarrow> path \<Rightarrow> bool" where
  "refuses_open trunc w p \<longleftrightarrow> denied w p \<and> \<not> (trunc \<and> late w p)"

definition os_open :: "bool \<Rightarrow> path \<Rightarrow> world \<Rightarrow> unit result \<times> world" where
  "os_open trunc p w =
     (case lookup w p of
        Some Dir \<Rightarrow> (Raise (OSError IsADirectoryError p), w)
      | Some (File c t) \<Rightarrow>
          if refuses_open trunc w p then (Raise (OSError PermissionError p), w)
          else if trunc
            then (Return (), w\<lparr>nodes := (nodes w)(p \<mapsto> File [] (clock w)), clock := Suc (clock w)\<rparr>)
            else (Return (), w)
      | None \<Rightarrow>
          (case lookup w (butlast p) of
             None \<Rightarrow> (Raise (OSError (missing_parent w p) p), w)
           | Some (File c t) \<Rightarrow> (Raise (OSError NotADirectoryError p), w)
           | Some Dir \<Rightarrow>
               if refuses_open trunc w p then (Raise (OSError PermissionError p), w)
               else (Return (),
                     w\<lparr>nodes := (nodes w)(p \<mapsto> File [] (clock w)), clock := Suc (clock w)\<rparr>)))"

text \<open>
  \<^verbatim>\<open>f.write(s)\<close> and the close of a file just opened for writing at \<open>p\<close>. The
  data reach the file when the buffer is flushed at the close; where the system refuses
  them, the close raises and the file stays as the open left it.
\<close>

definition file_write :: "path \<Rightarrow> string \<Rightarrow> world \<Rightarrow> unit result \<times> world" where
  "file_write p s w =
     (case lookup w p of
        Some (File c t) \<Rightarrow>
          if denied w p \<and> late w p then (Raise (OSError NoSpaceLeft p), w)
          else (Return (),
                w\<lparr>nodes := (nodes w)(p \<mapsto> File (c @ s) (clock w)), clock := Suc (clock w)\<rparr>)
      | _ \<Rightarrow> (Return (), w))"

subsection \<open>The \<^verbatim>\<open>pathlib\<close> methods the script calls\<close>

fun is_FileNotFoundError :: "exn \<Rightarrow> bool" where
  "is_FileNotFoundError (OSError FileNotFoundError q) = True"
| "is_FileNotFoundError x = False"

text \<open>\<^verbatim>\<open>except Exception\<close> catches these.\<close>

fun is_Exception :: "exn \<Rightarrow> bool" where
  "is_Exception (OSError e q) = True"
| "is_Exception RuntimeError = True"
| "is_Exception (SystemExit n) = False"

text \<open>\<^verbatim>\<open>except OSError\<close> catches these.\<close>

fun is_OSError :: "exn \<Rightarrow> bool" where
  "is_OSError (OSError e q) = True"
| "is_OSError x = False"

text \<open>
  \<^verbatim>\<open>Path.mkdir(parents=False, exist_ok=exist_ok)\<close>:
  \<^verbatim>\<open>
    try: os.mkdir(self, mode)
    except FileNotFoundError:
        if not parents or self.parent == self: raise
        self.parent.mkdir(parents=True, exist_ok=True)
        self.mkdir(mode, parents=False, exist_ok=exist_ok)
    except OSError:
        if not exist_ok or not self.is_dir(): raise
  \<close>
\<close>

definition Path_mkdir :: "bool \<Rightarrow> path \<Rightarrow> world \<Rightarrow> unit result \<times> world" where
  "Path_mkdir exist_ok p w =
     (case os_mkdir p w of
        (Return u, w') \<Rightarrow> (Return (), w')
      | (Raise x, w') \<Rightarrow>
          if is_FileNotFoundError x then (Raise x, w')
          else if is_OSError x \<and> exist_ok \<and> is_dir w' p then (Return (), w')
          else (Raise x, w'))"

text \<open>The same method with \<^verbatim>\<open>parents=True\<close>.\<close>

function mkdir_parents :: "bool \<Rightarrow> path \<Rightarrow> world \<Rightarrow> unit result \<times> world" where
  "mkdir_parents exist_ok p w =
     (case os_mkdir p w of
        (Return u, w') \<Rightarrow> (Return (), w')
      | (Raise x, w') \<Rightarrow>
          if is_FileNotFoundError x then
            (if p = [] then (Raise x, w')
             else (case mkdir_parents True (butlast p) w' of
                     (Raise y, w1) \<Rightarrow> (Raise y, w1)
                   | (Return u, w1) \<Rightarrow> Path_mkdir exist_ok p w1))
          else if is_OSError x \<and> exist_ok \<and> is_dir w' p then (Return (), w')
          else (Raise x, w'))"
  by pat_completeness auto
termination
  by (relation "measure (\<lambda>(e, p, w). length p)") auto

declare mkdir_parents.simps [simp del]

text \<open>
  \<^verbatim>\<open>Path.touch()\<close> (\<^verbatim>\<open>exist_ok=True\<close>):
  \<^verbatim>\<open>
    try: os.utime(self, None)
    except OSError: pass
    else: return
    fd = os.open(self, os.O_CREAT | os.O_WRONLY, mode); os.close(fd)
  \<close>
\<close>

definition Path_touch :: "path \<Rightarrow> world \<Rightarrow> unit result \<times> world" where
  "Path_touch p w =
     (case os_utime p w of
        (Return u, w') \<Rightarrow> (Return (), w')
      | (Raise x, w') \<Rightarrow> if is_OSError x then os_open False p w' else (Raise x, w'))"

text \<open>\<^verbatim>\<open>with open(p, "w") as f: f.write(s)\<close>.\<close>

definition write_text :: "path \<Rightarrow> string \<Rightarrow> world \<Rightarrow> unit result \<times> world" where
  "write_text p s w =
     (case os_open True p w of
        (Raise x, w') \<Rightarrow> (Raise x, w')
      | (Return u, w') \<Rightarrow> file_write p s w')"

section \<open>The script\<close>

definition PROJECT_STRUCTURE :: "string list" where
  "PROJECT_STRUCTURE =
     [''data/raw/images'',
      ''data/raw/text'',
      ''data/processed/embeddings'',
      ''data/processed/graph'',
      ''src/encoders'',
      ''src/graph'',
      ''src/fusion'',
      ''src/utils'',
      ''models/checkpoints'',
      ''models/exported'',
      ''logs'',
      ''notebooks'',
      ''config'']"

text \<open>
  What the script reads from \<^verbatim>\<open>torch\<close>: the two availability flags, which are
  plain answers, and the name and the memory (in bytes) of CUDA device 0, which are calls
  into the driver that may raise \<^verbatim>\<open>RuntimeError\<close>.
\<close>

record torch =
  cuda_is_available :: bool
  mps_is_available :: bool
  cuda_query_raises :: bool
  cuda_get_device_name :: string
  cuda_total_memory :: nat

definition device_config :: string where
  "device_config = ''config/device_config.txt''"

definition check_hardware_acceleration :: "torch \<Rightarrow> world \<Rightarrow> string result \<times> world" where
  "check_hardware_acceleration t w =
     (if cuda_is_available t \<and> cuda_query_raises t then (Raise RuntimeError, w)
      else
        let (device, w1) =
              (if cuda_is_available t then
                 (''cuda'', logger INFO (CUDA_Detected (cuda_get_device_name t) (cuda_total_memory t)) w)
               else if mps_is_available t then (''mps'', logger INFO MPS_Detected w)
               else (''cpu'', logger WARNING No_Hardware_Acceleration w))
        in case write_text (joinpath (cwd w1) device_config) device w1 of
             (Raise x, w2) \<Rightarrow> (Raise x, w2)
           | (Return u, w2) \<Rightarrow> (Return device, w2))"

text \<open>
  The body of the loop of \<^verbatim>\<open>initialize_directories\<close> for one folder: the
  \<^verbatim>\<open>try\<close> block, and the handler that logs the failure and calls
  \<^verbatim>\<open>sys.exit(1)\<close>.
\<close>

definition gitkeep :: string where
  "gitkeep = ''.gitkeep''"

definition on_failure :: "path \<Rightarrow> exn \<Rightarrow> world \<Rightarrow> unit result \<times> world" where
  "on_failure dir_path x w =
     (if is_Exception x then (Raise (SystemExit 1), logger ERROR (Failed_to_create dir_path x) w)
      else (Raise x, w))"

definition create_folder :: "path \<Rightarrow> string \<Rightarrow> world \<Rightarrow> unit result \<times> world" where
  "create_folder root folder w =
     (let dir_path = joinpath root folder in
      case mkdir_parents True dir_path w of
        (Raise x, w1) \<Rightarrow> on_failure dir_path x w1
      | (Return u, w1) \<Rightarrow>
          (case Path_touch (joinpath dir_path gitkeep) w1 of
             (Raise x, w2) \<Rightarrow> on_failure dir_path x w2
           | (Return u, w2) \<Rightarrow> (Return (), logger INFO (Created_Verified dir_path) w2)))"

fun for_folders :: "path \<Rightarrow> string list \<Rightarrow> world \<Rightarrow> unit result \<times> world" where
  "for_folders root [] w = (Return (), w)"
| "for_folders root (folder # rest) w =
     (case create_folder root folder w of
        (Raise x, w') \<Rightarrow> (Raise x, w')
      | (Return u, w') \<Rightarrow> for_folders root rest w')"

definition initialize_directories :: "path \<Rightarrow> world \<Rightarrow> unit result \<times> world" where
  "initialize_directories root w = for_folders root PROJECT_STRUCTURE w"

text \<open>\<^verbatim>\<open>str.upper()\<close> on ASCII.\<close>

definition upper :: "string \<Rightarrow> string" where
  "upper s =
     map (\<lambda>c. if (97::nat) \<le> of_char c \<and> of_char c \<le> (122::nat)
              then char_of (of_char c - (32::nat)) else c) s"

definition main :: "torch \<Rightarrow> world \<Rightarrow> unit result \<times> world" where
  "main t w =
     (let w0 = logger INFO Starting w;
          project_root = cwd w0
      in case initialize_directories project_root w0 of
           (Raise x, w1) \<Rightarrow> (Raise x, w1)
         | (Return u, w1) \<Rightarrow>
             (case check_hardware_acceleration t w1 of
                (Raise x, w2) \<Rightarrow> (Raise x, w2)
              | (Return device, w2) \<Rightarrow>
                  (Return (),
                   logger INFO (Project_Root project_root)
                     (logger INFO (Setup_Complete (upper device)) w2))))"

text \<open>
  The exit status of the process that runs \<^verbatim>\<open>main()\<close>: 0 when it returns, the
  argument of \<^verbatim>\<open>sys.exit\<close>, and 1 for an exception nobody caught.
\<close>

fun exit_status :: "unit result \<Rightarrow> nat" where
  "exit_status (Return u) = 0"
| "exit_status (Raise (SystemExit n)) = n"
| "exit_status (Raise (OSError e q)) = 1"
| "exit_status (Raise RuntimeError) = 1"

section \<open>Vocabulary of the properties\<close>

text \<open>The marker of a folder: \<^verbatim>\<open>root / folder / ".gitkeep"\<close>.\<close>

definition marker :: "path \<Rightarrow> string \<Rightarrow> path" where
  "marker root folder = joinpath (joinpath root folder) gitkeep"

text \<open>A node without its modification time.\<close>

fun erase :: "node \<Rightarrow> node" where
  "erase Dir = Dir"
| "erase (File c t) = File c 0"

text \<open>
  What a touch may do to an entry: create an empty file where there was nothing, or keep
  the content of a file and change its time.
\<close>

fun touched :: "node option \<Rightarrow> node option \<Rightarrow> bool" where
  "touched None (Some (File c t)) = (c = [])"
| "touched (Some (File c t)) (Some (File c' t')) = (c' = c)"
| "touched n n' = False"

text \<open>
  One entry before and after a run: unchanged, a new directory (where \<open>d\<close> allows it),
  or touched (where \<open>m\<close> allows it).
\<close>

definition node_step :: "bool \<Rightarrow> bool \<Rightarrow> node option \<Rightarrow> node option \<Rightarrow> bool" where
  "node_step d m n n' \<longleftrightarrow> n' = n \<or> (d \<and> n = None \<and> n' = Some Dir) \<or> (m \<and> touched n n')"

text \<open>
  Two states of the world where directories were added only at the paths of \<open>D\<close>,
  files were touched only at the paths of \<open>M\<close>, and permissions and the working
  directory are the same.
\<close>

definition effect :: "path set \<Rightarrow> path set \<Rightarrow> world \<Rightarrow> world \<Rightarrow> bool" where
  "effect D M w w' \<longleftrightarrow>
     denied w' = denied w \<and> cwd w' = cwd w \<and>
     (\<forall>q. node_step (q \<in> D \<and> q \<noteq> []) (q \<in> M \<and> q \<noteq> []) (nodes w q) (nodes w' q))"

text \<open>
  A folder whose directory is there, with an entry for its marker that may be written.
\<close>

definition initialized :: "path \<Rightarrow> string \<Rightarrow> world \<Rightarrow> bool" where
  "initialized root folder w \<longleftrightarrow>
     is_dir w (joinpath root folder) \<and> lookup w (marker root folder) \<noteq> None
     \<and> \<not> denied w (marker root folder)"

text \<open>
  A path to which data can be written: no write to it is refused, at the open or later,
  and the path is a file, or is missing in a directory that exists.
\<close>

definition can_write :: "world \<Rightarrow> path \<Rightarrow> bool" where
  "can_write w p \<longleftrightarrow>
     \<not> denied w p \<and>
     (case lookup w p of
        Some (File c t) \<Rightarrow> True
      | Some Dir \<Rightarrow> False
      | None \<Rightarrow> is_dir w (butlast p))"

text \<open>The path that \<^verbatim>\<open>"config/device_config.txt"\<close> names in the working directory.\<close>

definition config_file :: "world \<Rightarrow> path" where
  "config_file w = cwd w @ [''config'', ''device_config.txt'']"

text \<open>
  The shape of a file system: every entry stands in a directory. The record of the tree
  does not enforce it; the operations keep it.
\<close>

definition tree :: "world \<Rightarrow> bool" where
  "tree w \<longleftrightarrow> (\<forall>p. nodes w p \<noteq> None \<longrightarrow> is_dir w (butlast p))"

text \<open>
  A root directory under which every write is permitted and no file stands but under the
  name of a marker.
\<close>

definition clean :: "path \<Rightarrow> world \<Rightarrow> bool" where
  "clean root w \<longleftrightarrow>
     is_dir w root
     \<and> (\<forall>q. q \<noteq> [] \<longrightarrow> \<not> denied w (root @ q))
     \<and> (\<forall>q c t. lookup w (root @ q) = Some (File c t) \<longrightarrow> gitkeep \<in> set q)"

section \<open>Worlds for the examples\<close>

text \<open>
  A project directory \<^verbatim>\<open>/proj\<close> with nothing in it; the same with
  \<^verbatim>\<open>config/\<close>; the same with a configuration file that may not be written, and with
  one that is opened and takes no data; another directory with a configuration file of an earlier run; and what
  \<^verbatim>\<open>torch\<close> may report.
\<close>

definition fresh_world :: world where
  "fresh_world =
     \<lparr>nodes = [[''proj''] \<mapsto> Dir], denied = (\<lambda>p. False), late = (\<lambda>p. False), clock = 0, cwd = [''proj''], log = []\<rparr>"

definition marker_dir_world :: world where
  "marker_dir_world =
     \<lparr>nodes = [[''proj''] \<mapsto> Dir, [''proj'', ''logs''] \<mapsto> Dir,
               [''proj'', ''logs'', ''.gitkeep''] \<mapsto> Dir],
      denied = (\<lambda>p. False), late = (\<lambda>p. False), clock = 0, cwd = [''proj''], log = []\<rparr>"

definition marker_kept_world :: world where
  "marker_kept_world =
     \<lparr>nodes = [[''proj''] \<mapsto> Dir, [''proj'', ''logs''] \<mapsto> Dir,
               [''proj'', ''logs'', ''.gitkeep''] \<mapsto> File ''keep'' 0],
      denied = (\<lambda>p. False), late = (\<lambda>p. False), clock = 1, cwd = [''proj''], log = []\<rparr>"

definition text_denied_world :: world where
  "text_denied_world =
     \<lparr>nodes = [[''proj''] \<mapsto> Dir],
      denied = (\<lambda>p. p = [''proj'', ''data'', ''raw'', ''text'']), late = (\<lambda>p. False),
      clock = 0, cwd = [''proj''], log = []\<rparr>"

definition config_world :: world where
  "config_world =
     \<lparr>nodes = [[''proj''] \<mapsto> Dir, [''proj'', ''config''] \<mapsto> Dir],
      denied = (\<lambda>p. False), late = (\<lambda>p. False), clock = 0, cwd = [''proj''], log = []\<rparr>"

definition readonly_world :: world where
  "readonly_world =
     \<lparr>nodes = [[''proj''] \<mapsto> Dir, [''proj'', ''config''] \<mapsto> Dir,
               [''proj'', ''config'', ''device_config.txt''] \<mapsto> File ''old'' 0],
      denied = (\<lambda>p. p = [''proj'', ''config'', ''device_config.txt'']), late = (\<lambda>p. False),
      clock = 1, cwd = [''proj''], log = []\<rparr>"


definition other_world :: world where
  "other_world =
     \<lparr>nodes = [[''home''] \<mapsto> Dir, [''home'', ''config''] \<mapsto> Dir,
               [''home'', ''config'', ''device_config.txt''] \<mapsto> File ''mps'' 3],
      denied = (\<lambda>p. p = [''home'']), late = (\<lambda>p. False), clock = 7, cwd = [''home''], log = [(INFO, Starting)]\<rparr>"

definition no_accelerator :: torch where
  "no_accelerator =
     \<lparr>cuda_is_available = False, mps_is_available = False, cuda_query_raises = False,
      cuda_get_device_name = [], cuda_total_memory = 0\<rparr>"

definition cuda_and_mps :: torch where
  "cuda_and_mps =
     \<lparr>cuda_is_available = True, mps_is_available = True, cuda_query_raises = False,
      cuda_get_device_name = ''GPU 0'', cuda_total_memory = 8\<rparr>"

definition cuda_and_mps_other :: torch where
  "cuda_and_mps_other =
     \<lparr>cuda_is_available = True, mps_is_available = True, cuda_query_raises = False,
      cuda_get_device_name = ''GPU 1'', cuda_total_memory = 16\<rparr>"

definition mps_only :: torch where
  "mps_only =
     \<lparr>cuda_is_available = False, mps_is_available = True, cuda_query_raises = False,
      cuda_get_device_name = [], cuda_total_memory = 0\<rparr>"


definition cuda_only :: torch where
  "cuda_only =
     \<lparr>cuda_is_available = True, mps_is_available = False, cuda_query_raises = False,
      cuda_get_device_name = ''GPU 1'', cuda_total_memory = 16\<rparr>"

section \<open>The effect of the operations on the tree\<close>

lemma touched_iff:
  "touched n n' \<longleftrightarrow>
     (\<exists>c t. n' = Some (File c t) \<and> (n = None \<and> c = [] \<or> (\<exists>t0. n = Some (File c t0))))"
  by (induction n n' rule: touched.induct) auto

lemma touched_trans: "touched n n' \<Longrightarrow> touched n' n'' \<Longrightarrow> touched n n''"
  by (auto simp: touched_iff)

lemma touched_Dir: "touched n (Some Dir) = False" "touched (Some Dir) n' = False"
  by (simp_all add: touched_iff)

lemma touched_None: "touched n None = False"
  by (simp add: touched_iff)

lemma node_step_refl: "node_step d m n n"
  by (simp add: node_step_def)

lemma node_step_trans: "node_step d m n n' \<Longrightarrow> node_step d m n' n'' \<Longrightarrow> node_step d m n n''"
  unfolding node_step_def using touched_trans touched_Dir touched_None by blast

lemma node_step_mono: "node_step d m n n' \<Longrightarrow> (d \<Longrightarrow> d') \<Longrightarrow> (m \<Longrightarrow> m') \<Longrightarrow> node_step d' m' n n'"
  unfolding node_step_def by blast

lemma effect_refl: "effect D M w w"
  by (simp add: effect_def node_step_refl)

lemma effect_nodes:
  "effect D M w w' \<Longrightarrow> node_step (q \<in> D \<and> q \<noteq> []) (q \<in> M \<and> q \<noteq> []) (nodes w q) (nodes w' q)"
  by (simp add: effect_def)

lemma effect_trans:
  assumes "effect D M w w'" and "effect D M w' w''"
  shows "effect D M w w''"
proof -
  have "node_step (q \<in> D \<and> q \<noteq> []) (q \<in> M \<and> q \<noteq> []) (nodes w q) (nodes w'' q)" for q
    using effect_nodes[OF assms(1), of q] effect_nodes[OF assms(2), of q] by (rule node_step_trans)
  moreover have "denied w'' = denied w" "cwd w'' = cwd w"
    using assms by (simp_all add: effect_def)
  ultimately show ?thesis by (simp add: effect_def)
qed

lemma effect_mono:
  assumes "effect D M w w'" and "D \<subseteq> D'" and "M \<subseteq> M'"
  shows "effect D' M' w w'"
proof -
  have "node_step (q \<in> D' \<and> q \<noteq> []) (q \<in> M' \<and> q \<noteq> []) (nodes w q) (nodes w' q)" for q
    by (rule node_step_mono[OF effect_nodes[OF assms(1), of q]]) (use assms(2,3) in auto)
  moreover have "denied w' = denied w" "cwd w' = cwd w"
    using assms by (simp_all add: effect_def)
  ultimately show ?thesis by (simp add: effect_def)
qed

lemma effect_logger: "effect D M w w' \<Longrightarrow> effect D M w (logger l m w')"
  by (simp add: effect_def logger_def)

lemma node_step_Dir: "node_step d m (Some Dir) n' \<Longrightarrow> n' = Some Dir"
  by (simp add: node_step_def touched_Dir)

lemma node_step_Some: "node_step d m (Some n) n' \<Longrightarrow> n' \<noteq> None"
  by (auto simp: node_step_def touched_iff)

lemma effect_is_dir: "effect D M w w' \<Longrightarrow> is_dir w q \<Longrightarrow> is_dir w' q"
  using effect_nodes[of D M w w' q] by (auto simp: is_dir_def lookup_def dest: node_step_Dir split: if_splits)

lemma effect_exists: "effect D M w w' \<Longrightarrow> lookup w q \<noteq> None \<Longrightarrow> lookup w' q \<noteq> None"
  using effect_nodes[of D M w w' q] by (auto simp: lookup_def dest: node_step_Some split: if_splits)

lemma effect_outside: "effect D M w w' \<Longrightarrow> q \<notin> D \<Longrightarrow> q \<notin> M \<Longrightarrow> nodes w' q = nodes w q"
  using effect_nodes[of D M w w' q] by (simp add: node_step_def)

lemma os_mkdir_Raise: "os_mkdir p w = (Raise x, w') \<Longrightarrow> w' = w"
  by (auto simp: os_mkdir_def split: option.splits node.splits if_splits)

lemma os_mkdir_Return:
  "os_mkdir p w = (Return u, w') \<Longrightarrow>
     w' = w\<lparr>nodes := (nodes w)(p \<mapsto> Dir)\<rparr> \<and> lookup w p = None \<and> is_dir w (butlast p) \<and> \<not> denied w p"
  by (auto simp: os_mkdir_def is_dir_def split: option.splits node.splits if_splits)

lemma os_mkdir_effect:
  assumes "os_mkdir p w = (r, w')"
  shows "effect {q. prefix q p} M w w'"
proof (cases r)
  case (Return u)
  with assms have w': "w' = w\<lparr>nodes := (nodes w)(p \<mapsto> Dir)\<rparr>" and n: "lookup w p = None"
    using os_mkdir_Return by blast+
  from n have "p \<noteq> []" "nodes w p = None" by (auto simp: lookup_def split: if_splits)
  then show ?thesis by (simp add: effect_def node_step_def w')
next
  case (Raise x)
  with assms have "w' = w" using os_mkdir_Raise by blast
  then show ?thesis by (simp add: effect_refl)
qed

lemma Path_mkdir_effect:
  assumes "Path_mkdir e p w = (r, w')"
  shows "effect {q. prefix q p} M w w'"
proof (cases "os_mkdir p w")
  case (Pair r0 w0)
  have "w' = w0" using assms Pair by (cases r0) (auto simp: Path_mkdir_def split: if_splits)
  with Pair show ?thesis using os_mkdir_effect by blast
qed

lemma mkdir_parents_effect: "mkdir_parents e p w = (r, w') \<Longrightarrow> effect {q. prefix q p} M w w'"
proof (induction e p w arbitrary: r w' rule: mkdir_parents.induct)
  case (1 exist_ok p w)
  show ?case
  proof (cases "os_mkdir p w")
    case (Pair r0 w0)
    show ?thesis
    proof (cases r0)
      case (Return u)
      with Pair "1.prems" have "w' = w0" by (simp add: mkdir_parents.simps[of exist_ok p w])
      with Pair show ?thesis using os_mkdir_effect by blast
    next
      case (Raise x)
      with Pair have w0: "w0 = w" using os_mkdir_Raise by blast
      show ?thesis
      proof (cases "is_FileNotFoundError x \<and> p \<noteq> []")
        case False
        with Pair Raise w0 "1.prems" have "w' = w"
          by (auto simp: mkdir_parents.simps[of exist_ok p w] split: if_splits)
        then show ?thesis by (simp add: effect_refl)
      next
        case True
        obtain r1 w1 where m: "mkdir_parents True (butlast p) w0 = (r1, w1)" by fastforce
        have "effect {q. prefix q (butlast p)} M w0 w1"
          using "1.IH"[OF Pair[symmetric] Raise _ _ m] True by simp
        moreover have "{q. prefix q (butlast p)} \<subseteq> {q. prefix q p}"
          using prefixeq_butlast prefix_order.trans by blast
        ultimately have e1: "effect {q. prefix q p} M w w1"
          using effect_mono w0 by blast
        show ?thesis
        proof (cases r1)
          case (Raise y)
          with Pair \<open>r0 = Raise x\<close> True m "1.prems" have "w' = w1"
            by (simp add: mkdir_parents.simps[of exist_ok p w])
          with e1 show ?thesis by simp
        next
          case (Return u)
          with Pair \<open>r0 = Raise x\<close> True m "1.prems" have "Path_mkdir exist_ok p w1 = (r, w')"
            by (simp add: mkdir_parents.simps[of exist_ok p w])
          then have "effect {q. prefix q p} M w1 w'" by (rule Path_mkdir_effect)
          with e1 show ?thesis using effect_trans by blast
        qed
      qed
    qed
  qed
qed


lemma os_mkdir_exists: "lookup w p = Some n \<Longrightarrow> os_mkdir p w = (Raise (OSError FileExistsError p), w)"
  by (simp add: os_mkdir_def)

lemma Path_mkdir_Return:
  assumes "Path_mkdir e p w = (Return u, w')"
  shows "is_dir w' p"
proof (cases "os_mkdir p w")
  case (Pair r0 w0)
  show ?thesis
  proof (cases r0)
    case (Return v)
    with Pair assms have "w' = w0" by (simp add: Path_mkdir_def)
    with Pair Return have "w' = w\<lparr>nodes := (nodes w)(p \<mapsto> Dir)\<rparr>" using os_mkdir_Return by blast
    then show ?thesis by (simp add: is_dir_def lookup_def)
  next
    case (Raise x)
    with Pair assms show ?thesis by (auto simp: Path_mkdir_def split: if_splits)
  qed
qed

lemma mkdir_parents_Return:
  assumes "mkdir_parents e p w = (Return u, w')"
  shows "is_dir w' p"
proof (cases "os_mkdir p w")
  case (Pair r0 w0)
  show ?thesis
  proof (cases r0)
    case (Return v)
    with Pair assms have "w' = w0" by (simp add: mkdir_parents.simps[of e p w])
    with Pair Return have "w' = w\<lparr>nodes := (nodes w)(p \<mapsto> Dir)\<rparr>" using os_mkdir_Return by blast
    then show ?thesis by (simp add: is_dir_def lookup_def)
  next
    case (Raise x)
    show ?thesis
    proof (cases "is_FileNotFoundError x \<and> p \<noteq> []")
      case False
      with Pair Raise assms show ?thesis
        by (auto simp: mkdir_parents.simps[of e p w] split: if_splits)
    next
      case True
      obtain r1 w1 where m: "mkdir_parents True (butlast p) w0 = (r1, w1)" by fastforce
      with Pair Raise True assms have "Path_mkdir e p w1 = (Return u, w')"
        by (cases r1) (simp_all add: mkdir_parents.simps[of e p w])
      then show ?thesis by (rule Path_mkdir_Return)
    qed
  qed
qed

lemma mkdir_parents_is_dir: "is_dir w p \<Longrightarrow> mkdir_parents True p w = (Return (), w)"
  by (simp add: mkdir_parents.simps[of True p w] os_mkdir_exists is_dir_def)

lemma os_utime_Raise: "os_utime p w = (Raise x, w') \<Longrightarrow> w' = w"
  by (auto simp: os_utime_def split: option.splits if_splits)

lemma os_open_Raise: "os_open b p w = (Raise x, w') \<Longrightarrow> w' = w"
  by (auto simp: os_open_def split: option.splits node.splits if_splits)

lemma os_utime_exn: "os_utime p w = (Raise x, w') \<Longrightarrow> is_OSError x"
  by (auto simp: os_utime_def split: option.splits if_splits)

lemma Path_touch_open:
  "os_utime p w = (Raise x, w') \<Longrightarrow> Path_touch p w = os_open False p w"
  by (frule os_utime_exn, frule os_utime_Raise) (simp add: Path_touch_def)

lemma Path_touch_Raise: "Path_touch p w = (Raise x, w') \<Longrightarrow> w' = w"
proof (cases "os_utime p w")
  case (Pair r0 w0)
  assume a: "Path_touch p w = (Raise x, w')"
  show ?thesis
  proof (cases r0)
    case (Return u)
    with Pair a show ?thesis by (simp add: Path_touch_def)
  next
    case (Raise y)
    with Pair a have "os_open False p w = (Raise x, w')" using Path_touch_open by simp
    then show ?thesis by (rule os_open_Raise)
  qed
qed

text \<open>What a touch that returns has done, by what was there.\<close>

lemma Path_touch_Return:
  assumes "Path_touch p w = (Return u, w')"
  shows "\<not> denied w p \<and>
    w' = (case lookup w p of
            None \<Rightarrow> w\<lparr>nodes := (nodes w)(p \<mapsto> File [] (clock w)), clock := Suc (clock w)\<rparr>
          | Some Dir \<Rightarrow> w\<lparr>clock := Suc (clock w)\<rparr>
          | Some (File c t) \<Rightarrow> w\<lparr>nodes := (nodes w)(p \<mapsto> File c (clock w)), clock := Suc (clock w)\<rparr>)"
  using assms
  by (auto simp: Path_touch_def os_utime_def os_open_def refuses_open_def
      split: option.splits node.splits if_splits)

lemma Path_touch_existing:
  "lookup w p = Some n \<Longrightarrow> \<not> denied w p \<Longrightarrow>
   Path_touch p w =
     (Return (), case n of Dir \<Rightarrow> w\<lparr>clock := Suc (clock w)\<rparr>
                 | File c t \<Rightarrow> w\<lparr>nodes := (nodes w)(p \<mapsto> File c (clock w)), clock := Suc (clock w)\<rparr>)"
  by (auto simp: Path_touch_def os_utime_def split: node.splits)

lemma Path_touch_exists: "Path_touch p w = (Return u, w') \<Longrightarrow> lookup w' p \<noteq> None \<and> denied w' = denied w"
  by (drule Path_touch_Return) (auto simp: lookup_def split: option.splits node.splits)

lemma Path_touch_effect:
  assumes "Path_touch p w = (r, w')"
  shows "effect D {p} w w'"
proof (cases r)
  case (Raise x)
  with assms have "w' = w" using Path_touch_Raise by blast
  then show ?thesis by (simp add: effect_refl)
next
  case (Return u)
  note R = Path_touch_Return[OF assms[unfolded Return]]
  show ?thesis
  proof (cases "lookup w p")
    case None
    then have "p \<noteq> []" "nodes w p = None" by (auto simp: lookup_def split: if_splits)
    with R None show ?thesis by (simp add: effect_def node_step_def)
  next
    case (Some n)
    show ?thesis
    proof (cases n)
      case Dir
      with R Some show ?thesis by (simp add: effect_def node_step_def)
    next
      case (File c t)
      with Some have "p \<noteq> []" "nodes w p = Some (File c t)" by (auto simp: lookup_def split: if_splits)
      with R Some File show ?thesis by (simp add: effect_def node_step_def)
    qed
  qed
qed


lemma lookup_logger: "lookup (logger l m w) p = lookup w p"
  by (simp add: lookup_def logger_def)

lemma is_dir_logger: "is_dir (logger l m w) p = is_dir w p"
  by (simp add: is_dir_def lookup_logger)

lemma denied_logger: "denied (logger l m w) = denied w"
  by (simp add: logger_def)

lemma joinpath_gitkeep: "joinpath d gitkeep = d @ [''.gitkeep'']"
  by (simp add: joinpath_def gitkeep_def parts_def)

lemma marker_eq: "marker root folder = joinpath root folder @ [''.gitkeep'']"
  by (simp add: marker_def joinpath_gitkeep)

lemma os_mkdir_exn: "os_mkdir p w = (Raise x, w') \<Longrightarrow> \<exists>e. x = OSError e p"
  by (auto simp: os_mkdir_def split: option.splits node.splits if_splits)

lemma Path_mkdir_exn: "Path_mkdir e p w = (Raise x, w') \<Longrightarrow> \<exists>e q. x = OSError e q"
  by (auto simp: Path_mkdir_def split: prod.splits result.splits if_splits dest: os_mkdir_exn)

lemma mkdir_parents_exn: "mkdir_parents e p w = (Raise x, w') \<Longrightarrow> \<exists>e q. x = OSError e q"
proof (induction e p w arbitrary: x w' rule: mkdir_parents.induct)
  case (1 exist_ok p w)
  obtain r0 w0 where o: "os_mkdir p w = (r0, w0)" by fastforce
  show ?case
  proof (cases r0)
    case (Return u)
    with o "1.prems" show ?thesis by (simp add: mkdir_parents.simps[of exist_ok p w])
  next
    case (Raise y)
    then have y: "\<exists>e. y = OSError e p" using o os_mkdir_exn by blast
    show ?thesis
    proof (cases "is_FileNotFoundError y \<and> p \<noteq> []")
      case False
      with o Raise "1.prems" y show ?thesis
        by (auto simp: mkdir_parents.simps[of exist_ok p w] split: if_splits)
    next
      case True
      obtain r1 w1 where m: "mkdir_parents True (butlast p) w0 = (r1, w1)" by fastforce
      show ?thesis
      proof (cases r1)
        case (Raise z)
        with o \<open>r0 = Raise y\<close> True m "1.prems" have "x = z"
          by (simp add: mkdir_parents.simps[of exist_ok p w])
        moreover have "\<exists>e q. z = OSError e q"
          using "1.IH"[OF o[symmetric] \<open>r0 = Raise y\<close> _ _ m[unfolded Raise]] True by simp
        ultimately show ?thesis by simp
      next
        case (Return u)
        with o \<open>r0 = Raise y\<close> True m "1.prems" have "Path_mkdir exist_ok p w1 = (Raise x, w')"
          by (simp add: mkdir_parents.simps[of exist_ok p w])
        then show ?thesis by (rule Path_mkdir_exn)
      qed
    qed
  qed
qed

lemma Path_touch_exn: "Path_touch p w = (Raise x, w') \<Longrightarrow> \<exists>e. x = OSError e p"
  by (auto simp: Path_touch_def os_utime_def os_open_def split: option.splits node.splits if_splits)

text \<open>The three ways through the body of the loop.\<close>

lemma create_folder_cases:
  assumes "create_folder root folder w = (r, w')"
  obtains
    (mkdir_failed) e q w1 where
      "mkdir_parents True (joinpath root folder) w = (Raise (OSError e q), w1)"
      "r = Raise (SystemExit 1)"
      "w' = logger ERROR (Failed_to_create (joinpath root folder) (OSError e q)) w1"
  | (touch_failed) e q w1 w2 where
      "mkdir_parents True (joinpath root folder) w = (Return (), w1)"
      "Path_touch (marker root folder) w1 = (Raise (OSError e q), w2)"
      "r = Raise (SystemExit 1)"
      "w' = logger ERROR (Failed_to_create (joinpath root folder) (OSError e q)) w2"
  | (created) w1 w2 where
      "mkdir_parents True (joinpath root folder) w = (Return (), w1)"
      "Path_touch (marker root folder) w1 = (Return (), w2)"
      "r = Return ()"
      "w' = logger INFO (Created_Verified (joinpath root folder)) w2"
proof -
  obtain r1 w1 where m: "mkdir_parents True (joinpath root folder) w = (r1, w1)" by fastforce
  show thesis
  proof (cases r1)
    case (Raise x)
    then obtain e q where "x = OSError e q" using m mkdir_parents_exn by blast
    with m Raise assms show thesis
      by (intro mkdir_failed[of e q w1]) (auto simp: create_folder_def on_failure_def)
  next
    case (Return u)
    obtain r2 w2 where t: "Path_touch (marker root folder) w1 = (r2, w2)" by fastforce
    show thesis
    proof (cases r2)
      case (Raise x)
      then obtain e q where "x = OSError e q" using t Path_touch_exn by blast
      with m Return t Raise assms show thesis
        by (intro touch_failed[of w1 e q w2]) (auto simp: create_folder_def on_failure_def marker_def)
    next
      case R2: (Return v)
      with m Return t assms show thesis
        by (intro created[of w1 w2]) (auto simp: create_folder_def marker_def)
    qed
  qed
qed

lemma create_folder_effect:
  assumes "create_folder root folder w = (r, w')"
  shows "effect {q. prefix q (joinpath root folder)} {marker root folder} w w'"
  using assms
proof (cases rule: create_folder_cases)
  case (mkdir_failed e q w1)
  from mkdir_failed(1) have "effect {q. prefix q (joinpath root folder)} {marker root folder} w w1"
    by (rule mkdir_parents_effect)
  then show ?thesis unfolding mkdir_failed(3) by (rule effect_logger)
next
  case (touch_failed e q w1 w2)
  from touch_failed(1) have "effect {q. prefix q (joinpath root folder)} {marker root folder} w w1"
    by (rule mkdir_parents_effect)
  moreover from touch_failed(2) have "effect {q. prefix q (joinpath root folder)} {marker root folder} w1 w2"
    by (rule Path_touch_effect)
  ultimately have "effect {q. prefix q (joinpath root folder)} {marker root folder} w w2"
    by (rule effect_trans)
  then show ?thesis unfolding touch_failed(4) by (rule effect_logger)
next
  case (created w1 w2)
  from created(1) have "effect {q. prefix q (joinpath root folder)} {marker root folder} w w1"
    by (rule mkdir_parents_effect)
  moreover from created(2) have "effect {q. prefix q (joinpath root folder)} {marker root folder} w1 w2"
    by (rule Path_touch_effect)
  ultimately have "effect {q. prefix q (joinpath root folder)} {marker root folder} w w2"
    by (rule effect_trans)
  then show ?thesis unfolding created(4) by (rule effect_logger)
qed

lemma create_folder_Return:
  assumes "create_folder root folder w = (Return u, w')"
  shows "initialized root folder w'"
  using assms
proof (cases rule: create_folder_cases)
  case (created w1 w2)
  have "is_dir w1 (joinpath root folder)" using created(1) by (rule mkdir_parents_Return)
  then have "is_dir w2 (joinpath root folder)"
    using Path_touch_effect[OF created(2)] effect_is_dir by blast
  moreover have "lookup w2 (marker root folder) \<noteq> None" "denied w2 = denied w1"
    using Path_touch_exists[OF created(2)] by simp_all
  moreover have "\<not> denied w1 (marker root folder)"
    using Path_touch_Return[OF created(2)] by simp
  ultimately show ?thesis unfolding created(4)
    by (simp add: initialized_def is_dir_logger lookup_logger denied_logger)
qed simp_all

lemma effect_initialized: "effect D M w w' \<Longrightarrow> initialized root folder w \<Longrightarrow> initialized root folder w'"
  unfolding initialized_def using effect_is_dir[of D M w w'] effect_exists[of D M w w'] by (simp add: effect_def)


lemma for_folders_append:
  "for_folders root (xs @ ys) w =
     (case for_folders root xs w of
        (Raise x, w') \<Rightarrow> (Raise x, w')
      | (Return u, w') \<Rightarrow> for_folders root ys w')"
  by (induction xs arbitrary: w) (auto split: prod.splits result.splits)

lemma for_folders_effect:
  "for_folders root fs w = (r, w') \<Longrightarrow>
   effect {q. \<exists>f\<in>set fs. prefix q (joinpath root f)} (marker root ` set fs) w w'"
proof (induction fs arbitrary: w)
  case Nil
  then show ?case by (simp add: effect_refl)
next
  case (Cons f fs)
  let ?D = "{q. \<exists>g\<in>set (f # fs). prefix q (joinpath root g)}"
  let ?M = "marker root ` set (f # fs)"
  obtain r1 w1 where c: "create_folder root f w = (r1, w1)" by fastforce
  have e1: "effect ?D ?M w w1"
    by (rule effect_mono[OF create_folder_effect[OF c]]) auto
  show ?case
  proof (cases r1)
    case (Raise x)
    with c Cons.prems have "w' = w1" by simp
    with e1 show ?thesis by simp
  next
    case (Return u)
    with c Cons.prems have "for_folders root fs w1 = (r, w')" by simp
    then have "effect {q. \<exists>g\<in>set fs. prefix q (joinpath root g)} (marker root ` set fs) w1 w'"
      by (rule Cons.IH)
    then have "effect ?D ?M w1 w'" by (rule effect_mono) auto
    with e1 show ?thesis by (rule effect_trans)
  qed
qed

lemma for_folders_Return:
  "for_folders root fs w = (Return u, w') \<Longrightarrow> f \<in> set fs \<Longrightarrow> initialized root f w'"
proof (induction fs arbitrary: w)
  case Nil
  then show ?case by simp
next
  case (Cons g fs)
  obtain r1 w1 where c: "create_folder root g w = (r1, w1)" by fastforce
  with Cons.prems(1) have r1: "r1 = Return ()" and rest: "for_folders root fs w1 = (Return u, w')"
    by (cases r1; simp)+
  show ?case
  proof (cases "f = g")
    case True
    have "initialized root g w1" using c[unfolded r1] by (rule create_folder_Return)
    then show ?thesis using for_folders_effect[OF rest] effect_initialized True by blast
  next
    case False
    with Cons.prems(2) have "f \<in> set fs" by simp
    with rest show ?thesis by (rule Cons.IH)
  qed
qed

lemma for_folders_Raise: "for_folders root fs w = (Raise x, w') \<Longrightarrow> x = SystemExit 1"
proof (induction fs arbitrary: w)
  case Nil
  then show ?case by simp
next
  case (Cons g fs)
  obtain r1 w1 where c: "create_folder root g w = (r1, w1)" by fastforce
  show ?case
  proof (cases r1)
    case (Raise y)
    with c Cons.prems have "x = y" by simp
    moreover from c[unfolded Raise] have "y = SystemExit 1"
      by (cases rule: create_folder_cases) simp_all
    ultimately show ?thesis by simp
  next
    case (Return u)
    with c Cons.prems have "for_folders root fs w1 = (Raise x, w')" by simp
    then show ?thesis by (rule Cons.IH)
  qed
qed

text \<open>On folders that are all there, the loop only touches the markers.\<close>

lemma create_folder_again:
  assumes "initialized root folder w"
  shows "\<exists>w'. create_folder root folder w = (Return (), w') \<and> effect {} {marker root folder} w w'"
proof -
  from assms have d: "is_dir w (joinpath root folder)"
    and m: "lookup w (marker root folder) \<noteq> None" and p: "\<not> denied w (marker root folder)"
    by (simp_all add: initialized_def)
  from m obtain n where n: "lookup w (marker root folder) = Some n" by blast
  obtain w2 where t: "Path_touch (marker root folder) w = (Return (), w2)"
    using Path_touch_existing[OF n p] by simp
  have "create_folder root folder w = (Return (), logger INFO (Created_Verified (joinpath root folder)) w2)"
    using t by (simp add: create_folder_def mkdir_parents_is_dir[OF d] marker_def)
  moreover have "effect {} {marker root folder} w (logger INFO (Created_Verified (joinpath root folder)) w2)"
    using Path_touch_effect[OF t] by (rule effect_logger)
  ultimately show ?thesis by blast
qed

lemma for_folders_again:
  "\<forall>f\<in>set fs. initialized root f w \<Longrightarrow>
   \<exists>w'. for_folders root fs w = (Return (), w') \<and> effect {} (marker root ` set fs) w w'"
proof (induction fs arbitrary: w)
  case Nil
  then show ?case by (simp add: effect_refl)
next
  case (Cons g fs)
  then have "initialized root g w" by simp
  then obtain w1 where c: "create_folder root g w = (Return (), w1)"
    and e1: "effect {} {marker root g} w w1"
    using create_folder_again by blast
  have "\<forall>f\<in>set fs. initialized root f w1"
    using Cons.prems e1 effect_initialized by auto
  then obtain w' where r: "for_folders root fs w1 = (Return (), w')"
    and e2: "effect {} (marker root ` set fs) w1 w'"
    using Cons.IH by blast
  have "effect {} (marker root ` set (g # fs)) w w1"
    by (rule effect_mono[OF e1]) auto
  moreover have "effect {} (marker root ` set (g # fs)) w1 w'"
    by (rule effect_mono[OF e2]) auto
  ultimately have "effect {} (marker root ` set (g # fs)) w w'" by (rule effect_trans)
  with c r show ?case by simp
qed


subsection \<open>When the loop succeeds\<close>

lemma nearest_rev_File:
  "nearest_rev w xs = File c t \<Longrightarrow>
   \<exists>q. prefix q (rev xs) \<and> lookup w q = Some (File c t)
       \<and> (\<forall>r. prefix r (rev xs) \<longrightarrow> strict_prefix q r \<longrightarrow> lookup w r = None)"
proof (induction xs)
  case Nil
  then show ?case by simp
next
  case (Cons x xs)
  show ?case
  proof (cases "lookup w (rev (x # xs))")
    case (Some n)
    with Cons.prems have "lookup w (rev (x # xs)) = Some (File c t)" by simp
    moreover have "\<not> (prefix r (rev (x # xs)) \<and> strict_prefix (rev (x # xs)) r)" for r
      by (auto simp: strict_prefix_def dest!: prefix_length_le)
    ultimately show ?thesis by blast
  next
    case None
    with Cons.prems have "nearest_rev w xs = File c t" by simp
    then obtain q where q: "prefix q (rev xs)" "lookup w q = Some (File c t)"
      and far: "\<forall>r. prefix r (rev xs) \<longrightarrow> strict_prefix q r \<longrightarrow> lookup w r = None"
      using Cons.IH by blast
    have "lookup w r = None" if "prefix r (rev (x # xs))" "strict_prefix q r" for r
    proof (cases "r = rev (x # xs)")
      case True
      with None show ?thesis by simp
    next
      case False
      with that(1) have "prefix r (rev xs)" by (simp add: prefix_snoc)
      with far that(2) show ?thesis by blast
    qed
    moreover from q(1) have "prefix q (rev (x # xs))" by (simp add: prefix_snoc)
    ultimately show ?thesis using q(2) by blast
  qed
qed

lemma nearest_File:
  "nearest w p = File c t \<Longrightarrow>
   \<exists>q. prefix q p \<and> lookup w q = Some (File c t)
       \<and> (\<forall>r. prefix r p \<longrightarrow> strict_prefix q r \<longrightarrow> lookup w r = None)"
  using nearest_rev_File[of w "rev p" c t] by (simp add: nearest_def)

lemma clean_no_file: "clean root w \<Longrightarrow> lookup w (root @ q) = Some (File c t) \<Longrightarrow> gitkeep \<in> set q"
  unfolding clean_def by blast

lemma clean_nearest:
  assumes "clean root w" and "gitkeep \<notin> set ys"
  shows "nearest w (root @ ys) = Dir"
proof (cases "nearest w (root @ ys)")
  case Dir
  then show ?thesis .
next
  case (File c t)
  then obtain q where q: "prefix q (root @ ys)" "lookup w q = Some (File c t)"
    and far: "\<forall>r. prefix r (root @ ys) \<longrightarrow> strict_prefix q r \<longrightarrow> lookup w r = None"
    using nearest_File by blast
  have root: "lookup w root = Some Dir" using assms(1) by (simp add: clean_def is_dir_def)
  from q(1) consider "prefix q root" | zs where "q = root @ zs" "prefix zs ys"
    by (auto simp: prefix_append)
  then have False
  proof cases
    case 1
    with q(2) root have "strict_prefix q root" by (auto simp: strict_prefix_def)
    with far have "lookup w root = None" by simp
    with root show False by simp
  next
    case 2
    with q(2) assms(1) have "gitkeep \<in> set zs" using clean_no_file by blast
    with 2(2) assms(2) show False using set_mono_prefix by blast
  qed
  then show ?thesis ..
qed

lemma PROJECT_STRUCTURE_relative:
  "f \<in> set PROJECT_STRUCTURE \<Longrightarrow> joinpath root f = root @ parts f \<and> gitkeep \<notin> set (parts f)"
  by (auto simp: PROJECT_STRUCTURE_def joinpath_def parts_def gitkeep_def)

lemma marker_not_dir_path:
  assumes "f \<in> set PROJECT_STRUCTURE" and "g \<in> set PROJECT_STRUCTURE"
  shows "\<not> prefix (marker root f) (joinpath root g)"
proof
  assume "prefix (marker root f) (joinpath root g)"
  then have "prefix (root @ parts f @ [gitkeep]) (root @ parts g)"
    using PROJECT_STRUCTURE_relative[OF assms(1), of root] PROJECT_STRUCTURE_relative[OF assms(2), of root]
    by (simp add: marker_eq gitkeep_def)
  then have "prefix (parts f @ [gitkeep]) (parts g)" by simp
  then have "gitkeep \<in> set (parts g)" using set_mono_prefix by fastforce
  with PROJECT_STRUCTURE_relative[OF assms(2)] show False by simp
qed

lemma Path_touch_succeeds:
  assumes "is_dir w (butlast p)" and "\<not> denied w p"
  shows "\<exists>w'. Path_touch p w = (Return (), w')"
proof (cases "lookup w p")
  case None
  with assms show ?thesis
    by (simp add: Path_touch_def os_utime_def os_open_def refuses_open_def is_dir_def)
next
  case (Some n)
  then show ?thesis using Path_touch_existing[OF Some assms(2)] by simp
qed

lemma mkdir_parents_succeeds:
  "clean root w \<Longrightarrow> gitkeep \<notin> set ys \<Longrightarrow> \<exists>w'. mkdir_parents True (root @ ys) w = (Return (), w')"
proof (induction ys rule: rev_induct)
  case Nil
  then show ?case using mkdir_parents_is_dir by (simp add: clean_def)
next
  case (snoc y ys)
  let ?p = "root @ ys @ [y]"
  have p: "?p \<noteq> []" "butlast ?p = root @ ys" by (simp_all add: butlast_append)
  have nd: "\<not> denied w ?p" using snoc.prems(1) by (simp add: clean_def)
  have nf: "lookup w ?p \<noteq> Some (File c t)" for c t
    using clean_no_file[OF snoc.prems(1), of "ys @ [y]" c t] snoc.prems(2) by auto
  have nfp: "lookup w (root @ ys) \<noteq> Some (File c t)" for c t
    using clean_no_file[OF snoc.prems(1), of ys c t] snoc.prems(2) by auto
  show ?case
  proof (cases "lookup w ?p")
    case (Some n)
    with nf have "is_dir w ?p" by (cases n) (auto simp: is_dir_def)
    then show ?thesis using mkdir_parents_is_dir by simp
  next
    case None
    show ?thesis
    proof (cases "lookup w (root @ ys)")
      case (Some n)
      with nfp have "lookup w (root @ ys) = Some Dir" by (cases n) auto
      with None nd p have "os_mkdir ?p w = (Return (), w\<lparr>nodes := (nodes w)(?p \<mapsto> Dir)\<rparr>)"
        by (simp add: os_mkdir_def)
      then show ?thesis by (simp add: mkdir_parents.simps[of True ?p w])
    next
      case N: None
      have "nearest w (root @ ys) = Dir" using snoc.prems by (intro clean_nearest) simp_all
      with N None p have o: "os_mkdir ?p w = (Raise (OSError FileNotFoundError ?p), w)"
        by (simp add: os_mkdir_def missing_parent_def)
      from snoc obtain w1 where m: "mkdir_parents True (root @ ys) w = (Return (), w1)" by auto
      have e: "effect {q. prefix q (root @ ys)} {} w w1" using m by (rule mkdir_parents_effect)
      have "nodes w1 ?p = nodes w ?p" by (rule effect_outside[OF e]) simp_all
      with None p have l1: "lookup w1 ?p = None" by (simp add: lookup_def)
      have d1: "is_dir w1 (root @ ys)" using m by (rule mkdir_parents_Return)
      have nd1: "\<not> denied w1 ?p" using nd e by (simp add: effect_def)
      from l1 d1 nd1 p have "os_mkdir ?p w1 = (Return (), w1\<lparr>nodes := (nodes w1)(?p \<mapsto> Dir)\<rparr>)"
        by (simp add: os_mkdir_def is_dir_def)
      then have "Path_mkdir True ?p w1 = (Return (), w1\<lparr>nodes := (nodes w1)(?p \<mapsto> Dir)\<rparr>)"
        by (simp add: Path_mkdir_def)
      with o m p show ?thesis by (simp add: mkdir_parents.simps[of True ?p w])
    qed
  qed
qed

lemma clean_effect:
  assumes "effect D M w w'" and "clean root w" and "\<And>q. root @ q \<in> M \<Longrightarrow> gitkeep \<in> set q"
  shows "clean root w'"
proof -
  have "gitkeep \<in> set q" if f: "lookup w' (root @ q) = Some (File c t)" for q c t
  proof -
    from f have ne: "root @ q \<noteq> []" and n': "nodes w' (root @ q) = Some (File c t)"
      by (auto simp: lookup_def split: if_splits)
    have "node_step (root @ q \<in> D \<and> root @ q \<noteq> []) (root @ q \<in> M \<and> root @ q \<noteq> [])
            (nodes w (root @ q)) (nodes w' (root @ q))"
      using assms(1) by (rule effect_nodes)
    then consider "nodes w (root @ q) = Some (File c t)" | "root @ q \<in> M"
      unfolding n' node_step_def by auto
    then show ?thesis
    proof cases
      case 1
      with ne have "lookup w (root @ q) = Some (File c t)" by (simp add: lookup_def)
      with assms(2) show ?thesis unfolding clean_def by blast
    next
      case 2
      then show ?thesis by (rule assms(3))
    qed
  qed
  moreover have "is_dir w' root" using assms(1,2) effect_is_dir by (auto simp: clean_def)
  moreover have "denied w' = denied w" using assms(1) by (simp add: effect_def)
  ultimately show ?thesis using assms(2) unfolding clean_def by auto
qed

lemma create_folder_succeeds:
  assumes "clean root w" and "joinpath root f = root @ parts f" and "gitkeep \<notin> set (parts f)"
  shows "\<exists>w'. create_folder root f w = (Return (), w') \<and> clean root w'"
proof -
  obtain w1 where m: "mkdir_parents True (joinpath root f) w = (Return (), w1)"
    using mkdir_parents_succeeds[OF assms(1,3)] assms(2) by auto
  have d1: "is_dir w1 (joinpath root f)" using m by (rule mkdir_parents_Return)
  have "denied w1 = denied w" using mkdir_parents_effect[OF m, of "{}"] by (simp add: effect_def)
  then have "\<not> denied w1 (marker root f)"
    using assms(1,2) by (simp add: clean_def marker_eq)
  moreover have "is_dir w1 (butlast (marker root f))" using d1 by (simp add: marker_eq)
  ultimately obtain w2 where t: "Path_touch (marker root f) w1 = (Return (), w2)"
    using Path_touch_succeeds by blast
  let ?w' = "logger INFO (Created_Verified (joinpath root f)) w2"
  have c: "create_folder root f w = (Return (), ?w')"
    using m t by (simp add: create_folder_def marker_def)
  have "gitkeep \<in> set q" if "root @ q \<in> {marker root f}" for q
    using that assms(2) by (auto simp: marker_eq gitkeep_def)
  with create_folder_effect[OF c] assms(1) have "clean root ?w'" by (rule clean_effect)
  with c show ?thesis by blast
qed

lemma for_folders_succeeds:
  "clean root w \<Longrightarrow>
   \<forall>f\<in>set fs. joinpath root f = root @ parts f \<and> gitkeep \<notin> set (parts f) \<Longrightarrow>
   \<exists>w'. for_folders root fs w = (Return (), w')"
proof (induction fs arbitrary: w)
  case Nil
  then show ?case by simp
next
  case (Cons f fs)
  then obtain w1 where c: "create_folder root f w = (Return (), w1)" and "clean root w1"
    using create_folder_succeeds[of root w f] by auto
  with Cons obtain w' where "for_folders root fs w1 = (Return (), w')" by fastforce
  with c show ?case by simp
qed

subsection \<open>The shape of the tree\<close>

lemma tree_prefix: "tree w \<Longrightarrow> is_dir w p \<Longrightarrow> prefix q p \<Longrightarrow> is_dir w q"
proof (induction p rule: rev_induct)
  case Nil
  then show ?case by simp
next
  case (snoc x xs)
  show ?case
  proof (cases "q = xs @ [x]")
    case True
    with snoc.prems(2) show ?thesis by simp
  next
    case False
    with snoc.prems(3) have q: "prefix q xs" by (simp add: prefix_snoc)
    from snoc.prems(2) have "nodes w (xs @ [x]) \<noteq> None" by (simp add: is_dir_def lookup_def)
    with snoc.prems(1) have "is_dir w xs" unfolding tree_def by fastforce
    with snoc.IH snoc.prems(1) q show ?thesis by simp
  qed
qed

lemma tree_logger: "tree (logger l m w) = tree w"
  by (simp add: tree_def is_dir_logger) (simp add: logger_def)

lemma tree_clock: "tree (w\<lparr>clock := c\<rparr>) = tree w"
  by (simp add: tree_def is_dir_def lookup_def)

text \<open>A new entry in a directory, and a file in the place of a file.\<close>

lemma tree_new:
  assumes "tree w" and "lookup w p = None" and "is_dir w (butlast p)"
  shows "tree (w\<lparr>nodes := (nodes w)(p \<mapsto> n)\<rparr>)"
proof -
  let ?w' = "w\<lparr>nodes := (nodes w)(p \<mapsto> n)\<rparr>"
  from assms(2) have p: "p \<noteq> []" "nodes w p = None" by (auto simp: lookup_def split: if_splits)
  have keep: "is_dir ?w' q" if "is_dir w q" for q
    using that assms(2) by (auto simp: is_dir_def lookup_def)
  have "is_dir ?w' (butlast q)" if "nodes ?w' q \<noteq> None" for q
  proof (cases "q = p")
    case True
    with assms(3) keep show ?thesis by simp
  next
    case False
    with that have "nodes w q \<noteq> None" by simp
    with assms(1) have "is_dir w (butlast q)" by (simp add: tree_def)
    then show ?thesis by (rule keep)
  qed
  then show ?thesis by (simp add: tree_def)
qed

lemma tree_same_kind:
  assumes "tree w" and "lookup w p = Some (File c t)"
  shows "tree (w\<lparr>nodes := (nodes w)(p \<mapsto> File c' t')\<rparr>)"
proof -
  let ?w' = "w\<lparr>nodes := (nodes w)(p \<mapsto> File c' t')\<rparr>"
  from assms(2) have p: "p \<noteq> []" "nodes w p = Some (File c t)"
    by (auto simp: lookup_def split: if_splits)
  have keep: "is_dir ?w' q" if "is_dir w q" for q
    using that assms(2) by (auto simp: is_dir_def lookup_def)
  have "is_dir ?w' (butlast q)" if "nodes ?w' q \<noteq> None" for q
  proof -
    from that p have "nodes w q \<noteq> None" by (cases "q = p") simp_all
    with assms(1) have "is_dir w (butlast q)" by (simp add: tree_def)
    then show ?thesis by (rule keep)
  qed
  then show ?thesis by (simp add: tree_def)
qed

lemma os_mkdir_tree:
  assumes "tree w" and "os_mkdir p w = (r, w')"
  shows "tree w'"
proof (cases r)
  case (Return u)
  with assms(2) have "w' = w\<lparr>nodes := (nodes w)(p \<mapsto> Dir)\<rparr>"
    and "lookup w p = None" and "is_dir w (butlast p)"
    using os_mkdir_Return by blast+
  with assms(1) show ?thesis using tree_new by simp
next
  case (Raise x)
  with assms show ?thesis using os_mkdir_Raise by blast
qed

lemma Path_mkdir_tree:
  assumes "tree w" and "Path_mkdir e p w = (r, w')"
  shows "tree w'"
proof (cases "os_mkdir p w")
  case (Pair r0 w0)
  have "w' = w0" using assms(2) Pair by (cases r0) (auto simp: Path_mkdir_def split: if_splits)
  with Pair assms(1) show ?thesis using os_mkdir_tree by blast
qed

lemma mkdir_parents_tree: "tree w \<Longrightarrow> mkdir_parents e p w = (r, w') \<Longrightarrow> tree w'"
proof (induction e p w arbitrary: r w' rule: mkdir_parents.induct)
  case (1 exist_ok p w)
  show ?case
  proof (cases "os_mkdir p w")
    case (Pair r0 w0)
    have t0: "tree w0" using "1.prems"(1) Pair by (rule os_mkdir_tree)
    show ?thesis
    proof (cases r0)
      case (Return u)
      with Pair "1.prems"(2) have "w' = w0" by (simp add: mkdir_parents.simps[of exist_ok p w])
      with t0 show ?thesis by simp
    next
      case (Raise x)
      show ?thesis
      proof (cases "is_FileNotFoundError x \<and> p \<noteq> []")
        case False
        with Pair Raise "1.prems"(2) have "w' = w0"
          by (auto simp: mkdir_parents.simps[of exist_ok p w] split: if_splits)
        with t0 show ?thesis by simp
      next
        case True
        obtain r1 w1 where m: "mkdir_parents True (butlast p) w0 = (r1, w1)" by fastforce
        have t1: "tree w1"
          using "1.IH"[OF Pair[symmetric] Raise _ _ t0 m] True by simp
        show ?thesis
        proof (cases r1)
          case R: (Raise y)
          with Pair Raise True m "1.prems"(2) have "w' = w1"
            by (simp add: mkdir_parents.simps[of exist_ok p w])
          with t1 show ?thesis by simp
        next
          case (Return u)
          with Pair Raise True m "1.prems"(2) have "Path_mkdir exist_ok p w1 = (r, w')"
            by (simp add: mkdir_parents.simps[of exist_ok p w])
          with t1 show ?thesis by (rule Path_mkdir_tree)
        qed
      qed
    qed
  qed
qed

lemma Path_touch_created:
  "Path_touch p w = (Return u, w') \<Longrightarrow> lookup w p = None \<Longrightarrow> is_dir w (butlast p)"
  by (auto simp: Path_touch_def os_utime_def os_open_def is_dir_def
      split: option.splits node.splits if_splits)

lemma Path_touch_tree:
  assumes "tree w" and "Path_touch p w = (r, w')"
  shows "tree w'"
proof (cases r)
  case (Raise x)
  with assms show ?thesis using Path_touch_Raise by blast
next
  case (Return u)
  note R = Path_touch_Return[OF assms(2)[unfolded Return]]
  show ?thesis
  proof (cases "lookup w p")
    case None
    have "is_dir w (butlast p)" using assms(2)[unfolded Return] None by (rule Path_touch_created)
    with assms(1) None have "tree (w\<lparr>nodes := (nodes w)(p \<mapsto> File [] (clock w))\<rparr>)"
      by (intro tree_new)
    with R None show ?thesis by (simp add: tree_clock)
  next
    case (Some n)
    show ?thesis
    proof (cases n)
      case Dir
      with R Some assms(1) show ?thesis by (simp add: tree_clock)
    next
      case (File c t)
      with assms(1) Some have "tree (w\<lparr>nodes := (nodes w)(p \<mapsto> File c (clock w))\<rparr>)"
        by (intro tree_same_kind) simp_all
      with R Some File show ?thesis by (simp add: tree_clock)
    qed
  qed
qed

lemma create_folder_tree:
  assumes "tree w" and "create_folder root folder w = (r, w')"
  shows "tree w'"
  using assms(2)
proof (cases rule: create_folder_cases)
  case (mkdir_failed e q w1)
  have "tree w1" using assms(1) mkdir_failed(1) by (rule mkdir_parents_tree)
  then show ?thesis unfolding mkdir_failed(3) by (simp add: tree_logger)
next
  case (touch_failed e q w1 w2)
  have "tree w1" using assms(1) touch_failed(1) by (rule mkdir_parents_tree)
  then have "tree w2" using touch_failed(2) by (rule Path_touch_tree)
  then show ?thesis unfolding touch_failed(4) by (simp add: tree_logger)
next
  case (created w1 w2)
  have "tree w1" using assms(1) created(1) by (rule mkdir_parents_tree)
  then have "tree w2" using created(2) by (rule Path_touch_tree)
  then show ?thesis unfolding created(4) by (simp add: tree_logger)
qed

lemma for_folders_tree: "tree w \<Longrightarrow> for_folders root fs w = (r, w') \<Longrightarrow> tree w'"
proof (induction fs arbitrary: w)
  case Nil
  then show ?case by simp
next
  case (Cons f fs)
  obtain r1 w1 where c: "create_folder root f w = (r1, w1)" by fastforce
  have t1: "tree w1" using Cons.prems(1) c by (rule create_folder_tree)
  show ?case
  proof (cases r1)
    case (Raise x)
    with c Cons.prems(2) t1 show ?thesis by simp
  next
    case (Return u)
    with c Cons.prems(2) have "for_folders root fs w1 = (r, w')" by simp
    with t1 show ?thesis by (rule Cons.IH)
  qed
qed

lemma result_pair: "fst x = a \<Longrightarrow> x = (a, snd x)"
  by (cases x) simp

lemma marker_after_run:
  assumes "initialize_directories root w = (Return u, w')" and "folder \<in> set PROJECT_STRUCTURE"
  shows "is_dir w' (joinpath root folder)"
    and "case lookup w (marker root folder) of
           None \<Rightarrow> \<exists>t. lookup w' (marker root folder) = Some (File [] t)
         | Some Dir \<Rightarrow> lookup w' (marker root folder) = Some Dir
         | Some (File c t) \<Rightarrow> \<exists>t'. lookup w' (marker root folder) = Some (File c t')"
proof -
  let ?m = "marker root folder"
  let ?D = "{q. \<exists>f\<in>set PROJECT_STRUCTURE. prefix q (joinpath root f)}"
  let ?M = "marker root ` set PROJECT_STRUCTURE"
  from assms(1) have r: "for_folders root PROJECT_STRUCTURE w = (Return u, w')"
    by (simp add: initialize_directories_def)
  have i: "initialized root folder w'" using r assms(2) by (rule for_folders_Return)
  then show "is_dir w' (joinpath root folder)" by (simp add: initialized_def)
  have ne: "?m \<noteq> []" by (simp add: marker_eq)
  have nD: "?m \<notin> ?D" using marker_not_dir_path[OF assms(2)] by blast
  have "node_step (?m \<in> ?D \<and> ?m \<noteq> []) (?m \<in> ?M \<and> ?m \<noteq> []) (nodes w ?m) (nodes w' ?m)"
    using for_folders_effect[OF r] by (rule effect_nodes)
  with nD have "nodes w' ?m = nodes w ?m \<or> touched (nodes w ?m) (nodes w' ?m)"
    by (auto simp: node_step_def)
  moreover have "nodes w' ?m \<noteq> None" using i ne by (simp add: initialized_def lookup_def)
  ultimately show "case lookup w ?m of
           None \<Rightarrow> \<exists>t. lookup w' ?m = Some (File [] t)
         | Some Dir \<Rightarrow> lookup w' ?m = Some Dir
         | Some (File c t) \<Rightarrow> \<exists>t'. lookup w' ?m = Some (File c t')"
    using ne by (auto simp: lookup_def touched_iff split: option.splits node.splits)
qed

subsection \<open>Claims about the directory initializer\<close>

text \<open>
  C1, as stated: after a run that completes, every listed path is a directory and contains
  a marker file. The directories are there, but \<^verbatim>\<open>touch\<close> accepts any entry of
  the name: where \<^verbatim>\<open>logs/.gitkeep\<close> is a directory before the run, the run
  completes and the entry is still a directory.
\<close>

theorem marker_is_directory_counterexample:
  "fst (initialize_directories [''proj''] marker_dir_world) = Return ()
   \<and> ''logs'' \<in> set PROJECT_STRUCTURE
   \<and> lookup (snd (initialize_directories [''proj''] marker_dir_world))
        [''proj'', ''logs'', ''.gitkeep''] = Some Dir"
  by code_simp

text \<open>
  C1, amended: after a run that completes, every listed path is a directory, with the
  directories above it (on a tree where every entry stands in a directory), and contains
  an entry named \<^verbatim>\<open>.gitkeep\<close>. The entry is a regular file where no entry or a
  regular file of that name was there before the run; an entry of another kind that was
  there is there as it was.
\<close>

theorem initialize_directories_creates:
  assumes "initialize_directories root w = (Return u, w')" and "folder \<in> set PROJECT_STRUCTURE"
  shows "is_dir w' (joinpath root folder)
    \<and> (tree w \<longrightarrow> (\<forall>q. prefix q (joinpath root folder) \<longrightarrow> is_dir w' q))
    \<and> lookup w' (marker root folder) \<noteq> None
    \<and> (lookup w (marker root folder) = None \<or> (\<exists>c t. lookup w (marker root folder) = Some (File c t))
        \<longrightarrow> (\<exists>c t. lookup w' (marker root folder) = Some (File c t)))
    \<and> (\<forall>n. lookup w (marker root folder) = Some n \<longrightarrow> (\<forall>c t. n \<noteq> File c t)
        \<longrightarrow> lookup w' (marker root folder) = Some n)"
proof (intro conjI impI allI)
  note M = marker_after_run[OF assms]
  show d: "is_dir w' (joinpath root folder)" by (rule M(1))
  show "is_dir w' q" if "tree w" "prefix q (joinpath root folder)" for q
  proof -
    from that(1) assms(1) have "tree w'"
      unfolding initialize_directories_def by (rule for_folders_tree)
    then show ?thesis using d that(2) by (rule tree_prefix)
  qed
  show "lookup w' (marker root folder) \<noteq> None"
    using M(2) by (auto split: option.splits node.splits)
  show "\<exists>c t. lookup w' (marker root folder) = Some (File c t)"
    if "lookup w (marker root folder) = None \<or> (\<exists>c t. lookup w (marker root folder) = Some (File c t))"
    using M(2) that by (auto split: option.splits node.splits)
  show "lookup w' (marker root folder) = Some n"
    if "lookup w (marker root folder) = Some n" "\<forall>c t. n \<noteq> File c t" for n
    using M(2) that by (cases n) (auto split: option.splits node.splits)
qed

theorem initialize_directories_creates_witness:
  "initialize_directories [''proj''] fresh_world
     = (Return (), snd (initialize_directories [''proj''] fresh_world))
   \<and> ''data/raw/images'' \<in> set PROJECT_STRUCTURE
   \<and> tree fresh_world
   \<and> lookup fresh_world (marker [''proj''] ''data/raw/images'') = None
   \<and> is_dir (snd (initialize_directories [''proj''] fresh_world)) [''proj'', ''data'', ''raw'', ''images'']
   \<and> is_dir (snd (initialize_directories [''proj''] fresh_world)) [''proj'', ''data'', ''raw'']
   \<and> is_dir (snd (initialize_directories [''proj''] fresh_world)) [''proj'', ''data'']
   \<and> (\<exists>c t. lookup (snd (initialize_directories [''proj''] fresh_world))
               (marker [''proj''] ''data/raw/images'') = Some (File c t))
   \<and> lookup marker_dir_world (marker [''proj''] ''logs'') = Some Dir
   \<and> lookup (snd (initialize_directories [''proj''] marker_dir_world)) (marker [''proj''] ''logs'')
       = Some Dir"
proof -
  let ?W = "snd (initialize_directories [''proj''] fresh_world)"
  have h: "initialize_directories [''proj''] fresh_world = (Return (), ?W)"
    by (rule result_pair) code_simp
  have f: "''data/raw/images'' \<in> set PROJECT_STRUCTURE" by (simp add: PROJECT_STRUCTURE_def)
  have t: "tree fresh_world"
    by (auto simp: tree_def fresh_world_def is_dir_def lookup_def split: if_splits)
  have n: "lookup fresh_world (marker [''proj''] ''data/raw/images'') = None" by code_simp
  have j: "joinpath [''proj''] ''data/raw/images'' = [''proj'', ''data'', ''raw'', ''images'']"
    by code_simp
  note T = initialize_directories_creates[OF h f, unfolded j]
  from T t have a: "\<forall>q. prefix q [''proj'', ''data'', ''raw'', ''images''] \<longrightarrow> is_dir ?W q"
    by blast
  have a1: "is_dir ?W [''proj'', ''data'', ''raw'', ''images'']"
    and a2: "is_dir ?W [''proj'', ''data'', ''raw'']"
    and a3: "is_dir ?W [''proj'', ''data'']"
    using a by simp_all
  from T n have m: "\<exists>c t. lookup ?W (marker [''proj''] ''data/raw/images'') = Some (File c t)"
    by blast
  let ?V = "snd (initialize_directories [''proj''] marker_dir_world)"
  have h': "initialize_directories [''proj''] marker_dir_world = (Return (), ?V)"
    by (rule result_pair) code_simp
  have g: "''logs'' \<in> set PROJECT_STRUCTURE" by (simp add: PROJECT_STRUCTURE_def)
  have k: "lookup marker_dir_world (marker [''proj''] ''logs'') = Some Dir" by code_simp
  from initialize_directories_creates[OF h' g] k
  have k': "lookup ?V (marker [''proj''] ''logs'') = Some Dir" by blast
  show ?thesis by (intro conjI h f t n a1 a2 a3 m k k')
qed

text \<open>
  C7, as stated: after the run every marker is empty, also where a file of that name held
  content before. \<^verbatim>\<open>touch\<close> does not truncate: a marker that holds
  \<^verbatim>\<open>keep\<close> before the run holds it afterwards, with a new time.
\<close>

theorem marker_keeps_content_counterexample:
  "fst (initialize_directories [''proj''] marker_kept_world) = Return ()
   \<and> ''logs'' \<in> set PROJECT_STRUCTURE
   \<and> lookup marker_kept_world [''proj'', ''logs'', ''.gitkeep''] = Some (File ''keep'' 0)
   \<and> lookup (snd (initialize_directories [''proj''] marker_kept_world))
        [''proj'', ''logs'', ''.gitkeep''] = Some (File ''keep'' 11)"
  by code_simp

text \<open>
  C7, amended: after a run that completes, the marker of every listed directory is an
  empty file where no entry of that name was there before; an entry that was there is
  kept, a file with its content and a directory as a directory.
\<close>

theorem marker_content:
  assumes "initialize_directories root w = (Return u, w')" and "folder \<in> set PROJECT_STRUCTURE"
  shows "case lookup w (marker root folder) of
           None \<Rightarrow> \<exists>t. lookup w' (marker root folder) = Some (File [] t)
         | Some Dir \<Rightarrow> lookup w' (marker root folder) = Some Dir
         | Some (File c t) \<Rightarrow> \<exists>t'. lookup w' (marker root folder) = Some (File c t')"
  using assms by (rule marker_after_run(2))

theorem marker_content_witness:
  "initialize_directories [''proj''] fresh_world
     = (Return (), snd (initialize_directories [''proj''] fresh_world))
   \<and> ''notebooks'' \<in> set PROJECT_STRUCTURE
   \<and> lookup fresh_world (marker [''proj''] ''notebooks'') = None
   \<and> (\<exists>t. lookup (snd (initialize_directories [''proj''] fresh_world))
             (marker [''proj''] ''notebooks'') = Some (File [] t))"
proof -
  have h: "initialize_directories [''proj''] fresh_world
     = (Return (), snd (initialize_directories [''proj''] fresh_world))"
    by (rule result_pair) code_simp
  have f: "''notebooks'' \<in> set PROJECT_STRUCTURE" by (simp add: PROJECT_STRUCTURE_def)
  have n: "lookup fresh_world (marker [''proj''] ''notebooks'') = None" by code_simp
  from marker_content[OF h f] show ?thesis unfolding n using h f n by simp
qed

text \<open>
  C4. A second run on the tree that a completed run leaves completes too, and leaves every
  entry as it was but for its modification time; nothing but the markers changes at all.
\<close>

theorem initialize_directories_idempotent:
  assumes "initialize_directories root w = (Return u, w1)"
  shows "\<exists>w2. initialize_directories root w1 = (Return (), w2)
           \<and> (\<forall>q. map_option erase (lookup w2 q) = map_option erase (lookup w1 q))
           \<and> (\<forall>q. q \<notin> marker root ` set PROJECT_STRUCTURE \<longrightarrow> lookup w2 q = lookup w1 q)"
proof -
  let ?M = "marker root ` set PROJECT_STRUCTURE"
  from assms have r: "for_folders root PROJECT_STRUCTURE w = (Return u, w1)"
    by (simp add: initialize_directories_def)
  have i: "\<forall>f\<in>set PROJECT_STRUCTURE. initialized root f w1"
    using for_folders_Return[OF r] by blast
  then obtain w2 where r2: "for_folders root PROJECT_STRUCTURE w1 = (Return (), w2)"
    and e: "effect {} ?M w1 w2"
    using for_folders_again by blast
  have s: "nodes w2 q = nodes w1 q \<or> (q \<in> ?M \<and> touched (nodes w1 q) (nodes w2 q))" for q
    using effect_nodes[OF e, of q] by (auto simp: node_step_def)
  have a: "map_option erase (lookup w2 q) = map_option erase (lookup w1 q)" for q
  proof (cases "q \<in> ?M \<and> touched (nodes w1 q) (nodes w2 q)")
    case False
    with s[of q] show ?thesis by (simp add: lookup_def)
  next
    case True
    then obtain f where f: "f \<in> set PROJECT_STRUCTURE" "q = marker root f" by blast
    with i have "lookup w1 q \<noteq> None" by (simp add: initialized_def)
    moreover have "q \<noteq> []" using f by (simp add: marker_eq)
    ultimately show ?thesis using True by (auto simp: lookup_def touched_iff)
  qed
  have b: "q \<notin> ?M \<longrightarrow> lookup w2 q = lookup w1 q" for q
    using s[of q] by (auto simp: lookup_def)
  from r2 a b show ?thesis by (simp add: initialize_directories_def)
qed

theorem initialize_directories_idempotent_witness:
  "initialize_directories [''proj''] fresh_world
     = (Return (), snd (initialize_directories [''proj''] fresh_world))
   \<and> (\<exists>w2. initialize_directories [''proj''] (snd (initialize_directories [''proj''] fresh_world))
              = (Return (), w2)
           \<and> (\<forall>q. map_option erase (lookup w2 q)
                  = map_option erase (lookup (snd (initialize_directories [''proj''] fresh_world)) q))
           \<and> (\<forall>q. q \<notin> marker [''proj''] ` set PROJECT_STRUCTURE \<longrightarrow>
                  lookup w2 q = lookup (snd (initialize_directories [''proj''] fresh_world)) q))
   \<and> lookup (snd (initialize_directories [''proj''] fresh_world)) (marker [''proj''] ''logs'')
       = Some (File [] 10)
   \<and> lookup (snd (initialize_directories [''proj'']
               (snd (initialize_directories [''proj''] fresh_world)))) (marker [''proj''] ''logs'')
       = Some (File [] 23)"
proof -
  have h: "initialize_directories [''proj''] fresh_world
     = (Return (), snd (initialize_directories [''proj''] fresh_world))"
    by (rule result_pair) code_simp
  have t1: "lookup (snd (initialize_directories [''proj''] fresh_world)) (marker [''proj''] ''logs'')
       = Some (File [] 10)" by code_simp
  have t2: "lookup (snd (initialize_directories [''proj'']
               (snd (initialize_directories [''proj''] fresh_world)))) (marker [''proj''] ''logs'')
       = Some (File [] 23)" by code_simp
  show ?thesis
    by (intro conjI h initialize_directories_idempotent[OF h] t1 t2)
qed

section \<open>The accelerator prober\<close>

lemma joinpath_device_config: "joinpath a device_config = a @ [''config'', ''device_config.txt'']"
  by (simp add: joinpath_def device_config_def parts_def)

lemma can_write_logger: "can_write (logger l m w) p = can_write w p"
  by (simp add: can_write_def lookup_logger is_dir_logger denied_logger cong: option.case_cong)

lemma config_file_logger: "config_file (logger l m w) = config_file w"
  by (simp add: config_file_def logger_def)

lemma joinpath_config_file: "joinpath (cwd w) device_config = config_file w"
  by (simp add: joinpath_device_config config_file_def)

lemma write_text_ok:
  assumes "can_write w p"
  shows "write_text p s w =
    (Return (), w\<lparr>nodes := (nodes w)(p \<mapsto> File s (Suc (clock w))), clock := Suc (Suc (clock w))\<rparr>)"
proof -
  let ?w1 = "w\<lparr>nodes := (nodes w)(p \<mapsto> File [] (clock w)), clock := Suc (clock w)\<rparr>"
  from assms have p: "p \<noteq> []" and d: "\<not> denied w p"
    by (auto simp: can_write_def lookup_def)
  have "os_open True p w = (Return (), ?w1)"
  proof (cases "lookup w p")
    case None
    with assms have "lookup w (butlast p) = Some Dir" by (simp add: can_write_def is_dir_def)
    with None d show ?thesis by (simp add: os_open_def refuses_open_def)
  next
    case (Some n)
    with assms d show ?thesis by (cases n) (simp_all add: can_write_def os_open_def refuses_open_def)
  qed
  moreover have "file_write p s ?w1 =
      (Return (), w\<lparr>nodes := (nodes w)(p \<mapsto> File s (Suc (clock w))), clock := Suc (Suc (clock w))\<rparr>)"
    using p d by (simp add: file_write_def lookup_def)
  ultimately show ?thesis by (simp add: write_text_def)
qed

text \<open>
  A write that cannot be done raises at the \<^verbatim>\<open>open\<close>, or at the close where the
  refusal is late.
\<close>

lemma write_text_fails:
  assumes "\<not> can_write w p"
  shows "\<exists>e w'. write_text p s w = (Raise (OSError e p), w')"
proof (cases "os_open True p w")
  case (Pair r0 w0)
  show ?thesis
  proof (cases r0)
    case (Raise x)
    with Pair have "\<exists>e. x = OSError e p"
      by (auto simp: os_open_def split: option.splits node.splits if_splits)
    with Pair Raise show ?thesis by (auto simp: write_text_def)
  next
    case (Return u)
    with Pair assms have d: "denied w p \<and> late w p" and p: "p \<noteq> []"
      and w0: "w0 = w\<lparr>nodes := (nodes w)(p \<mapsto> File [] (clock w)), clock := Suc (clock w)\<rparr>"
      by (auto simp: os_open_def can_write_def refuses_open_def is_dir_def lookup_def
          split: option.splits node.splits if_splits)
    then have "file_write p s w0 = (Raise (OSError NoSpaceLeft p), w0)"
      by (simp add: file_write_def lookup_def)
    with Pair Return show ?thesis by (simp add: write_text_def)
  qed
qed

lemma check_hardware_query:
  "cuda_is_available t \<Longrightarrow> cuda_query_raises t \<Longrightarrow>
   check_hardware_acceleration t w = (Raise RuntimeError, w)"
  by (simp add: check_hardware_acceleration_def)

lemma check_hardware_ok:
  assumes "can_write w (config_file w)" and "\<not> (cuda_is_available t \<and> cuda_query_raises t)"
  shows "check_hardware_acceleration t w =
    (Return (if cuda_is_available t then ''cuda'' else if mps_is_available t then ''mps'' else ''cpu''),
     (logger (if cuda_is_available t \<or> mps_is_available t then INFO else WARNING)
        (if cuda_is_available t then CUDA_Detected (cuda_get_device_name t) (cuda_total_memory t)
         else if mps_is_available t then MPS_Detected else No_Hardware_Acceleration) w)
     \<lparr>nodes := (nodes w)(config_file w \<mapsto>
         File (if cuda_is_available t then ''cuda'' else if mps_is_available t then ''mps'' else ''cpu'')
              (Suc (clock w))),
       clock := Suc (Suc (clock w))\<rparr>)"
proof -
  have c: "can_write (logger l m w) (config_file w)" for l m
    using assms(1) by (simp add: can_write_logger)
  have l: "cwd (logger l m w) = cwd w" "clock (logger l m w) = clock w" "nodes (logger l m w) = nodes w" for l m
    by (simp_all add: logger_def)
  show ?thesis
    unfolding check_hardware_acceleration_def using assms(2)
    by (simp add: joinpath_config_file config_file_logger l write_text_ok[OF c])
qed

lemma check_hardware_fails:
  assumes "\<not> can_write w (config_file w)" and "\<not> (cuda_is_available t \<and> cuda_query_raises t)"
  shows "\<exists>e w'. check_hardware_acceleration t w = (Raise (OSError e (config_file w)), w')"
proof -
  have c: "\<not> can_write (logger l m w) (config_file w)" for l m
    using assms(1) by (simp add: can_write_logger)
  have l: "cwd (logger l m w) = cwd w" for l m
    by (simp add: logger_def)
  obtain e1 w1 where e1: "write_text (config_file w) ''cuda''
        (logger INFO (CUDA_Detected (cuda_get_device_name t) (cuda_total_memory t)) w)
      = (Raise (OSError e1 (config_file w)), w1)"
    using write_text_fails[OF c] by blast
  obtain e2 w2 where e2: "write_text (config_file w) ''mps'' (logger INFO MPS_Detected w)
      = (Raise (OSError e2 (config_file w)), w2)"
    using write_text_fails[OF c] by blast
  obtain e3 w3 where e3: "write_text (config_file w) ''cpu'' (logger WARNING No_Hardware_Acceleration w)
      = (Raise (OSError e3 (config_file w)), w3)"
    using write_text_fails[OF c] by blast
  show ?thesis
    unfolding check_hardware_acceleration_def using assms(2)
    by (simp add: joinpath_config_file config_file_logger l e1 e2 e3)
qed

lemma check_hardware_Return:
  assumes "check_hardware_acceleration t w = (Return device, w')"
  shows "can_write w (config_file w)"
    and "\<not> (cuda_is_available t \<and> cuda_query_raises t)"
    and "device = (if cuda_is_available t then ''cuda'' else if mps_is_available t then ''mps'' else ''cpu'')"
    and "lookup w' (config_file w) = Some (File device (Suc (clock w)))"
proof -
  show q: "\<not> (cuda_is_available t \<and> cuda_query_raises t)"
    using assms check_hardware_query[of t w] by auto
  show c: "can_write w (config_file w)"
    using assms check_hardware_fails[OF _ q, of w] by auto
  have n: "config_file w \<noteq> []" by (simp add: config_file_def)
  from assms show "device = (if cuda_is_available t then ''cuda'' else if mps_is_available t then ''mps'' else ''cpu'')"
    unfolding check_hardware_ok[OF c q] by simp
  from assms show "lookup w' (config_file w) = Some (File device (Suc (clock w)))"
    unfolding check_hardware_ok[OF c q] using n by (auto simp: lookup_def logger_def)
qed

subsection \<open>Claims about the prober\<close>

text \<open>
  C2, as stated: the prober selects the class in the order CUDA, MPS, CPU, stores it in
  the configuration file and returns it. The selection is in that order, but a run in
  which the file cannot be written neither stores nor returns: with CUDA available and a
  configuration file that holds \<^verbatim>\<open>old\<close> and may not be written, \<^verbatim>\<open>open\<close>
  raises and the file still holds \<^verbatim>\<open>old\<close>.
\<close>

theorem check_hardware_acceleration_unwritable_counterexample:
  "cuda_is_available cuda_only
   \<and> fst (check_hardware_acceleration cuda_only readonly_world)
     = Raise (OSError PermissionError [''proj'', ''config'', ''device_config.txt''])
   \<and> lookup (snd (check_hardware_acceleration cuda_only readonly_world))
        [''proj'', ''config'', ''device_config.txt''] = Some (File ''old'' 0)"
  by code_simp

text \<open>
  C2, amended: the prober selects the class in the order CUDA, then MPS, then CPU; when
  \<^verbatim>\<open>config/device_config.txt\<close> of the working directory can be written (and, with
  CUDA available, the queries of the device return), it stores the selected class there as
  the whole content of the file, a single token, and returns it.
\<close>

theorem check_hardware_acceleration_priority:
  assumes "can_write w (config_file w)"
    and "\<not> (cuda_is_available t \<and> cuda_query_raises t)"
  shows "\<exists>w'. check_hardware_acceleration t w
                = (Return (if cuda_is_available t then ''cuda''
                           else if mps_is_available t then ''mps'' else ''cpu''), w')
           \<and> (\<exists>tm. lookup w' (cwd w @ [''config'', ''device_config.txt''])
                      = Some (File (if cuda_is_available t then ''cuda''
                                    else if mps_is_available t then ''mps'' else ''cpu'') tm))"
proof -
  have n: "config_file w \<noteq> []" by (simp add: config_file_def)
  show ?thesis
    unfolding check_hardware_ok[OF assms] config_file_def[symmetric]
    using n by (simp add: lookup_def logger_def)
qed

theorem check_hardware_acceleration_priority_witness:
  "can_write config_world (config_file config_world)
   \<and> (\<exists>w'. check_hardware_acceleration cuda_and_mps config_world = (Return ''cuda'', w')
          \<and> (\<exists>tm. lookup w' (cwd config_world @ [''config'', ''device_config.txt''])
                     = Some (File ''cuda'' tm)))
   \<and> (\<exists>w'. check_hardware_acceleration mps_only config_world = (Return ''mps'', w')
          \<and> (\<exists>tm. lookup w' (cwd config_world @ [''config'', ''device_config.txt''])
                     = Some (File ''mps'' tm)))
   \<and> (\<exists>w'. check_hardware_acceleration no_accelerator config_world = (Return ''cpu'', w')
          \<and> (\<exists>tm. lookup w' (cwd config_world @ [''config'', ''device_config.txt''])
                     = Some (File ''cpu'' tm)))"
proof -
  have a: "can_write config_world (config_file config_world)" by code_simp
  have b: "\<not> (cuda_is_available cuda_and_mps \<and> cuda_query_raises cuda_and_mps)"
    "\<not> (cuda_is_available mps_only \<and> cuda_query_raises mps_only)"
    "\<not> (cuda_is_available no_accelerator \<and> cuda_query_raises no_accelerator)"
    by (simp_all add: cuda_and_mps_def mps_only_def no_accelerator_def)
  have c: "(if cuda_is_available cuda_and_mps then ''cuda''
            else if mps_is_available cuda_and_mps then ''mps'' else ''cpu'') = ''cuda''"
    "(if cuda_is_available mps_only then ''cuda''
      else if mps_is_available mps_only then ''mps'' else ''cpu'') = ''mps''"
    "(if cuda_is_available no_accelerator then ''cuda''
      else if mps_is_available no_accelerator then ''mps'' else ''cpu'') = ''cpu''"
    by (simp_all add: cuda_and_mps_def mps_only_def no_accelerator_def)
  note T1 = check_hardware_acceleration_priority[OF a b(1), unfolded c(1)]
  note T2 = check_hardware_acceleration_priority[OF a b(2), unfolded c(2)]
  note T3 = check_hardware_acceleration_priority[OF a b(3), unfolded c(3)]
  show ?thesis by (intro conjI a T1 T2 T3)
qed









text \<open>
  C10. Two runs of the prober that return and agree on the CUDA flag and on the MPS flag
  return the same token and store the same token, whatever the device name, the memory
  size and the rest of the two worlds are.
\<close>

theorem check_hardware_acceleration_flags_only:
  assumes "cuda_is_available t1 = cuda_is_available t2"
    and "mps_is_available t1 = mps_is_available t2"
    and "check_hardware_acceleration t1 w1 = (Return d1, w1')"
    and "check_hardware_acceleration t2 w2 = (Return d2, w2')"
  shows "d1 = d2
    \<and> (\<exists>c tm1 tm2. lookup w1' (config_file w1) = Some (File c tm1)
                   \<and> lookup w2' (config_file w2) = Some (File c tm2))"
  using check_hardware_Return(3,4)[OF assms(3)] check_hardware_Return(3,4)[OF assms(4)] assms(1,2)
  by simp

theorem check_hardware_acceleration_flags_only_witness:
  "cuda_is_available cuda_and_mps = cuda_is_available cuda_and_mps_other
   \<and> mps_is_available cuda_and_mps = mps_is_available cuda_and_mps_other
   \<and> cuda_get_device_name cuda_and_mps \<noteq> cuda_get_device_name cuda_and_mps_other
   \<and> fst (check_hardware_acceleration cuda_and_mps config_world) = Return ''cuda''
   \<and> fst (check_hardware_acceleration cuda_and_mps_other other_world) = Return ''cuda''
   \<and> (\<exists>c tm1 tm2.
         lookup (snd (check_hardware_acceleration cuda_and_mps config_world))
           (config_file config_world) = Some (File c tm1)
       \<and> lookup (snd (check_hardware_acceleration cuda_and_mps_other other_world))
           (config_file other_world) = Some (File c tm2))"
proof -
  have f1: "cuda_is_available cuda_and_mps = cuda_is_available cuda_and_mps_other"
    and f2: "mps_is_available cuda_and_mps = mps_is_available cuda_and_mps_other"
    and f3: "cuda_get_device_name cuda_and_mps \<noteq> cuda_get_device_name cuda_and_mps_other"
    by (simp_all add: cuda_and_mps_def cuda_and_mps_other_def)
  have r1: "fst (check_hardware_acceleration cuda_and_mps config_world) = Return ''cuda''"
    by code_simp
  have r2: "fst (check_hardware_acceleration cuda_and_mps_other other_world) = Return ''cuda''"
    by code_simp
  from check_hardware_acceleration_flags_only[OF f1 f2 result_pair[OF r1] result_pair[OF r2]]
  show ?thesis using f1 f2 f3 r1 r2 by blast
qed

section \<open>The entry point\<close>

lemma main_Raise:
  "initialize_directories (cwd w) (logger INFO Starting w) = (Raise x, w1) \<Longrightarrow> main t w = (Raise x, w1)"
  by (simp add: main_def Let_def logger_def)

lemma main_exit_0:
  assumes "exit_status (fst (main t w)) = 0"
  shows "fst (initialize_directories (cwd w) (logger INFO Starting w)) = Return ()"
proof (cases "initialize_directories (cwd w) (logger INFO Starting w)")
  case (Pair r w1)
  show ?thesis
  proof (cases r)
    case (Return u)
    with Pair show ?thesis by simp
  next
    case (Raise x)
    with Pair have "x = SystemExit 1"
      using for_folders_Raise by (simp add: initialize_directories_def)
    with Pair Raise have "main t w = (Raise (SystemExit 1), w1)" using main_Raise by simp
    with assms show ?thesis by simp
  qed
qed

text \<open>
  C3. When \<^verbatim>\<open>mkdir\<close> or \<^verbatim>\<open>touch\<close> raises an \<^verbatim>\<open>OSError\<close> for a
  folder of the list, the folders before it done, the initializer logs the error with the
  path of that folder and the process exits with status 1 in the state the failure left:
  the run is the run over the list cut after that folder, no later folder is attempted.
  A process that exits with status 0 has created or verified every folder and marker.
\<close>

theorem initialize_directories_aborts:
  "(PROJECT_STRUCTURE = before @ folder # rest
      \<and> for_folders (cwd w) before (logger INFO Starting w) = (Return (), w1)
      \<and> (mkdir_parents True (joinpath (cwd w) folder) w1 = (Raise (OSError e q), w2)
         \<or> (\<exists>wm. mkdir_parents True (joinpath (cwd w) folder) w1 = (Return (), wm)
                \<and> Path_touch (marker (cwd w) folder) wm = (Raise (OSError e q), w2)))
    \<longrightarrow> initialize_directories (cwd w) (logger INFO Starting w)
          = (Raise (SystemExit 1),
             logger ERROR (Failed_to_create (joinpath (cwd w) folder) (OSError e q)) w2)
        \<and> for_folders (cwd w) (before @ [folder]) (logger INFO Starting w)
          = initialize_directories (cwd w) (logger INFO Starting w)
        \<and> main t w
          = (Raise (SystemExit 1),
             logger ERROR (Failed_to_create (joinpath (cwd w) folder) (OSError e q)) w2)
        \<and> exit_status (fst (main t w)) = 1)
   \<and> (exit_status (fst (main t w)) = 0
    \<longrightarrow> fst (initialize_directories (cwd w) (logger INFO Starting w)) = Return ()
        \<and> (\<forall>f. f \<in> set PROJECT_STRUCTURE \<longrightarrow>
              is_dir (snd (initialize_directories (cwd w) (logger INFO Starting w)))
                (joinpath (cwd w) f)
              \<and> lookup (snd (initialize_directories (cwd w) (logger INFO Starting w)))
                  (marker (cwd w) f) \<noteq> None))"
proof (intro conjI impI)
  let ?w0 = "logger INFO Starting w"
  let ?W = "logger ERROR (Failed_to_create (joinpath (cwd w) folder) (OSError e q)) w2"
  assume a: "PROJECT_STRUCTURE = before @ folder # rest
      \<and> for_folders (cwd w) before ?w0 = (Return (), w1)
      \<and> (mkdir_parents True (joinpath (cwd w) folder) w1 = (Raise (OSError e q), w2)
         \<or> (\<exists>wm. mkdir_parents True (joinpath (cwd w) folder) w1 = (Return (), wm)
                \<and> Path_touch (marker (cwd w) folder) wm = (Raise (OSError e q), w2)))"
  then have ps: "PROJECT_STRUCTURE = before @ folder # rest"
    and pre: "for_folders (cwd w) before ?w0 = (Return (), w1)"
    and failed: "mkdir_parents True (joinpath (cwd w) folder) w1 = (Raise (OSError e q), w2)
         \<or> (\<exists>wm. mkdir_parents True (joinpath (cwd w) folder) w1 = (Return (), wm)
                \<and> Path_touch (marker (cwd w) folder) wm = (Raise (OSError e q), w2))"
    by simp_all
  from failed have c: "create_folder (cwd w) folder w1 = (Raise (SystemExit 1), ?W)"
    by (auto simp: create_folder_def on_failure_def marker_def)
  with pre have one: "for_folders (cwd w) (before @ [folder]) ?w0 = (Raise (SystemExit 1), ?W)"
    by (simp add: for_folders_append)
  from pre c have "for_folders (cwd w) (before @ folder # rest) ?w0 = (Raise (SystemExit 1), ?W)"
    by (simp add: for_folders_append)
  then show i: "initialize_directories (cwd w) ?w0 = (Raise (SystemExit 1), ?W)"
    unfolding initialize_directories_def ps .
  with one show "for_folders (cwd w) (before @ [folder]) ?w0 = initialize_directories (cwd w) ?w0"
    by simp
  from i show m: "main t w = (Raise (SystemExit 1), ?W)" by (rule main_Raise)
  then show "exit_status (fst (main t w)) = 1" by simp
next
  let ?w0 = "logger INFO Starting w"
  assume z: "exit_status (fst (main t w)) = 0"
  then show r: "fst (initialize_directories (cwd w) ?w0) = Return ()" by (rule main_exit_0)
  have "for_folders (cwd w) PROJECT_STRUCTURE ?w0
      = (Return (), snd (for_folders (cwd w) PROJECT_STRUCTURE ?w0))"
    by (rule result_pair) (use r in \<open>simp add: initialize_directories_def\<close>)
  then have "initialized (cwd w) f (snd (initialize_directories (cwd w) ?w0))"
    if "f \<in> set PROJECT_STRUCTURE" for f
    unfolding initialize_directories_def using that by (rule for_folders_Return)
  then show "\<forall>f. f \<in> set PROJECT_STRUCTURE \<longrightarrow>
              is_dir (snd (initialize_directories (cwd w) ?w0)) (joinpath (cwd w) f)
              \<and> lookup (snd (initialize_directories (cwd w) ?w0)) (marker (cwd w) f) \<noteq> None"
    by (simp add: initialized_def)
qed

theorem initialize_directories_aborts_witness:
  "fst (for_folders (cwd text_denied_world) [''data/raw/images''] (logger INFO Starting text_denied_world))
     = Return ()
   \<and> fst (mkdir_parents True (joinpath (cwd text_denied_world) ''data/raw/text'')
        (snd (for_folders (cwd text_denied_world) [''data/raw/images'']
               (logger INFO Starting text_denied_world))))
     = Raise (OSError PermissionError [''proj'', ''data'', ''raw'', ''text''])
   \<and> fst (main no_accelerator text_denied_world) = Raise (SystemExit 1)
   \<and> exit_status (fst (main no_accelerator text_denied_world)) = 1
   \<and> last (log (snd (main no_accelerator text_denied_world)))
     = (ERROR, Failed_to_create [''proj'', ''data'', ''raw'', ''text'']
                 (OSError PermissionError [''proj'', ''data'', ''raw'', ''text'']))
   \<and> lookup (snd (main no_accelerator text_denied_world)) [''proj'', ''data'', ''processed''] = None
   \<and> exit_status (fst (main no_accelerator fresh_world)) = 0
   \<and> is_dir (snd (initialize_directories (cwd fresh_world) (logger INFO Starting fresh_world)))
        (joinpath (cwd fresh_world) ''config'')"
proof -
  let ?T = "text_denied_world"
  let ?A = "logger INFO Starting ?T"
  let ?B = "snd (for_folders (cwd ?T) [''data/raw/images''] ?A)"
  let ?q = "[''proj'', ''data'', ''raw'', ''text'']"
  let ?C = "snd (mkdir_parents True (joinpath (cwd ?T) ''data/raw/text'') ?B)"
  have ps: "PROJECT_STRUCTURE = [''data/raw/images''] @ ''data/raw/text'' # drop 2 PROJECT_STRUCTURE"
    by (simp add: PROJECT_STRUCTURE_def)
  have a: "fst (for_folders (cwd ?T) [''data/raw/images''] ?A) = Return ()" by code_simp
  have b: "fst (mkdir_parents True (joinpath (cwd ?T) ''data/raw/text'') ?B)
      = Raise (OSError PermissionError ?q)" by code_simp
  note T = initialize_directories_aborts[where before="[''data/raw/images'']"
      and folder="''data/raw/text''" and rest="drop 2 PROJECT_STRUCTURE" and w="?T" and ?w1.0="?B"
      and e=PermissionError and q="?q" and ?w2.0="?C" and t=no_accelerator]
  from T ps result_pair[OF a] result_pair[OF b]
  have m: "main no_accelerator ?T
      = (Raise (SystemExit 1),
         logger ERROR (Failed_to_create (joinpath (cwd ?T) ''data/raw/text'') (OSError PermissionError ?q)) ?C)"
    and x: "exit_status (fst (main no_accelerator ?T)) = 1"
    by blast+
  have j: "joinpath (cwd ?T) ''data/raw/text'' = ?q" by code_simp
  have l: "last (log (snd (main no_accelerator ?T)))
     = (ERROR, Failed_to_create ?q (OSError PermissionError ?q))"
    unfolding m j by (simp add: logger_def)
  have n: "lookup (snd (main no_accelerator ?T)) [''proj'', ''data'', ''processed''] = None"
    by code_simp
  have z: "exit_status (fst (main no_accelerator fresh_world)) = 0" by code_simp
  have c: "''config'' \<in> set PROJECT_STRUCTURE" by (simp add: PROJECT_STRUCTURE_def)
  from initialize_directories_aborts[where w=fresh_world and t=no_accelerator] z c
  have d: "is_dir (snd (initialize_directories (cwd fresh_world) (logger INFO Starting fresh_world)))
        (joinpath (cwd fresh_world) ''config'')"
    by blast
  from m have f: "fst (main no_accelerator ?T) = Raise (SystemExit 1)" by simp
  show ?thesis by (intro conjI a b f x l n z d)
qed


lemma PROJECT_STRUCTURE_no_config_file:
  "f \<in> set PROJECT_STRUCTURE \<Longrightarrow> ''device_config.txt'' \<notin> set (parts f)"
  by (auto simp: PROJECT_STRUCTURE_def parts_def)

lemma PROJECT_STRUCTURE_nonempty: "f \<in> set PROJECT_STRUCTURE \<Longrightarrow> parts f \<noteq> []"
  by (auto simp: PROJECT_STRUCTURE_def parts_def)

lemma PROJECT_STRUCTURE_distinct: "distinct (map (joinpath root) PROJECT_STRUCTURE)"
proof -
  have "map (joinpath root) PROJECT_STRUCTURE = map ((@) root) (map parts PROJECT_STRUCTURE)"
    using PROJECT_STRUCTURE_relative by simp
  moreover have "distinct (map parts PROJECT_STRUCTURE)"
    by (simp add: PROJECT_STRUCTURE_def parts_def)
  ultimately show ?thesis by (simp add: distinct_map inj_on_def)
qed

lemma config_file_untouched:
  assumes "initialize_directories root w = (r, w')"
  shows "nodes w' (root @ [''config'', ''device_config.txt'']) = nodes w (root @ [''config'', ''device_config.txt''])"
proof -
  let ?c = "root @ [''config'', ''device_config.txt'']"
  from assms have e: "effect {q. \<exists>f\<in>set PROJECT_STRUCTURE. prefix q (joinpath root f)}
      (marker root ` set PROJECT_STRUCTURE) w w'"
    unfolding initialize_directories_def by (rule for_folders_effect)
  have "\<not> prefix ?c (joinpath root f)" if f: "f \<in> set PROJECT_STRUCTURE" for f
  proof
    assume "prefix ?c (joinpath root f)"
    then have "prefix [''config'', ''device_config.txt''] (parts f)"
      using PROJECT_STRUCTURE_relative[OF f, of root] by simp
    then have "''device_config.txt'' \<in> set (parts f)" using set_mono_prefix by fastforce
    with PROJECT_STRUCTURE_no_config_file[OF f] show False by simp
  qed
  moreover have "?c \<noteq> marker root f" for f
    by (simp add: marker_eq PROJECT_STRUCTURE_relative joinpath_def)
  ultimately show ?thesis by (intro effect_outside[OF e]) auto
qed

text \<open>
  C8. In a working directory that exists, is empty and permits every write below it, with
  neither accelerator flag set, the entry point returns (exit status 0). The list has
  thirteen entries that name thirteen different paths; none of them is there before, and
  afterwards each of them is a directory with an empty marker file, and
  \<^verbatim>\<open>config/device_config.txt\<close> holds \<^verbatim>\<open>cpu\<close>.
\<close>

theorem main_in_empty_directory:
  assumes "is_dir w (cwd w)"
    and "\<forall>q. q \<noteq> [] \<longrightarrow> lookup w (cwd w @ q) = None"
    and "\<forall>q. q \<noteq> [] \<longrightarrow> \<not> denied w (cwd w @ q)"
    and "\<not> cuda_is_available t" and "\<not> mps_is_available t"
  shows "\<exists>w'. main t w = (Return (), w')
           \<and> length PROJECT_STRUCTURE = 13
           \<and> distinct (map (joinpath (cwd w)) PROJECT_STRUCTURE)
           \<and> (\<forall>f\<in>set PROJECT_STRUCTURE.
                 lookup w (joinpath (cwd w) f) = None
                 \<and> is_dir w' (joinpath (cwd w) f)
                 \<and> (\<exists>tm. lookup w' (marker (cwd w) f) = Some (File [] tm)))
           \<and> (\<exists>tm. lookup w' (cwd w @ [''config'', ''device_config.txt''])
                      = Some (File ''cpu'' tm))"
proof -
  let ?root = "cwd w"
  let ?A = "logger INFO Starting w"
  let ?c = "?root @ [''config'', ''device_config.txt'']"
  have empty: "lookup ?A (?root @ q) = None" if "q \<noteq> []" for q
    using assms(2) that by (simp add: lookup_logger)
  have "lookup ?A (?root @ q) \<noteq> Some (File c tm)" for q c tm
    using empty[of q] assms(1) by (cases "q = []") (auto simp: is_dir_def lookup_logger)
  then have cl: "clean ?root ?A"
    using assms(1,3) by (simp add: clean_def is_dir_logger denied_logger)
  obtain B where B: "initialize_directories ?root ?A = (Return (), B)"
    using for_folders_succeeds[OF cl, of PROJECT_STRUCTURE] PROJECT_STRUCTURE_relative
    unfolding initialize_directories_def by blast
  have eff: "effect {q. \<exists>f\<in>set PROJECT_STRUCTURE. prefix q (joinpath ?root f)}
      (marker ?root ` set PROJECT_STRUCTURE) ?A B"
    using B unfolding initialize_directories_def by (rule for_folders_effect)
  then have same: "denied B = denied w" "cwd B = ?root"
    by (simp_all add: effect_def logger_def)
  have dirs: "is_dir B (joinpath ?root f)" if "f \<in> set PROJECT_STRUCTURE" for f
    using B that by (rule marker_after_run(1))
  have marks: "\<exists>tm. lookup B (marker ?root f) = Some (File [] tm)"
    if f: "f \<in> set PROJECT_STRUCTURE" for f
  proof -
    have "marker ?root f = ?root @ (parts f @ [''.gitkeep''])"
      using PROJECT_STRUCTURE_relative[OF f, of ?root] by (simp add: marker_eq)
    then have "lookup ?A (marker ?root f) = None" using empty by simp
    with marker_after_run(2)[OF B f] show ?thesis by simp
  qed
  have cfg: "config_file B = ?c" by (simp add: config_file_def same)
  have "nodes B ?c = nodes ?A ?c" using B by (rule config_file_untouched)
  then have none: "lookup B ?c = None" using empty[of "[''config'', ''device_config.txt'']"]
    by (simp add: lookup_def)
  have "''config'' \<in> set PROJECT_STRUCTURE" by (simp add: PROJECT_STRUCTURE_def)
  then have "is_dir B (joinpath ?root ''config'')" by (rule dirs)
  moreover have "joinpath ?root ''config'' = butlast ?c"
    by (simp add: joinpath_def parts_def butlast_append)
  ultimately have "can_write B ?c"
    using none assms(3) same by (simp add: can_write_def)
  then have ch: "check_hardware_acceleration t B =
      (Return ''cpu'',
       (logger WARNING No_Hardware_Acceleration B)
         \<lparr>nodes := (nodes B)(?c \<mapsto> File ''cpu'' (Suc (clock B))), clock := Suc (Suc (clock B))\<rparr>)"
    using check_hardware_ok[of B t] assms(4,5) by (simp add: cfg)
  let ?C = "(logger WARNING No_Hardware_Acceleration B)
         \<lparr>nodes := (nodes B)(?c \<mapsto> File ''cpu'' (Suc (clock B))), clock := Suc (Suc (clock B))\<rparr>"
  let ?E = "logger INFO (Project_Root ?root) (logger INFO (Setup_Complete (upper ''cpu'')) ?C)"
  have m: "main t w = (Return (), ?E)"
    using B ch by (simp add: main_def Let_def logger_def)
  have look: "lookup ?E q = (if q = ?c then Some (File ''cpu'' (Suc (clock B))) else lookup B q)" for q
    by (simp add: lookup_def logger_def)
  have "lookup w (joinpath ?root f) = None
        \<and> is_dir ?E (joinpath ?root f) \<and> (\<exists>tm. lookup ?E (marker ?root f) = Some (File [] tm))"
    if f: "f \<in> set PROJECT_STRUCTURE" for f
  proof -
    from dirs[OF f] none have "joinpath ?root f \<noteq> ?c" by (auto simp: is_dir_def)
    moreover from marks[OF f] none have "marker ?root f \<noteq> ?c" by auto
    moreover have "lookup w (joinpath ?root f) = None"
      using PROJECT_STRUCTURE_relative[OF f, of ?root] PROJECT_STRUCTURE_nonempty[OF f] assms(2)
      by simp
    ultimately show ?thesis using dirs[OF f] marks[OF f] by (simp add: is_dir_def look)
  qed
  moreover have "\<exists>tm. lookup ?E ?c = Some (File ''cpu'' tm)" by (simp add: look)
  moreover have "length PROJECT_STRUCTURE = 13" by (simp add: PROJECT_STRUCTURE_def)
  ultimately show ?thesis using m PROJECT_STRUCTURE_distinct[of ?root] by blast
qed

theorem main_in_empty_directory_witness:
  "\<exists>w'. main no_accelerator fresh_world = (Return (), w')
      \<and> length PROJECT_STRUCTURE = 13
      \<and> distinct (map (joinpath (cwd fresh_world)) PROJECT_STRUCTURE)
      \<and> (\<forall>f\<in>set PROJECT_STRUCTURE.
            lookup fresh_world (joinpath (cwd fresh_world) f) = None
            \<and> is_dir w' (joinpath (cwd fresh_world) f)
            \<and> (\<exists>tm. lookup w' (marker (cwd fresh_world) f) = Some (File [] tm)))
      \<and> (\<exists>tm. lookup w' (cwd fresh_world @ [''config'', ''device_config.txt''])
                 = Some (File ''cpu'' tm))"
proof (rule main_in_empty_directory)
  show "is_dir fresh_world (cwd fresh_world)" by code_simp
  show "\<forall>q. q \<noteq> [] \<longrightarrow> lookup fresh_world (cwd fresh_world @ q) = None"
    by (simp add: fresh_world_def lookup_def)
  show "\<forall>q. q \<noteq> [] \<longrightarrow> \<not> denied fresh_world (cwd fresh_world @ q)"
    by (simp add: fresh_world_def)
  show "\<not> cuda_is_available no_accelerator" "\<not> mps_is_available no_accelerator"
    by (simp_all add: no_accelerator_def)
qed


end
